theory Spec2Isabelle
  imports Main "HOL-Library.Sublist"
begin

section \<open>JavaScript values\<close>

text \<open>
  The values the validation module and the two request handlers pass around: the
  primitives that a CSV row, \<^verbatim>\<open>parseInt\<close> and a JSON or url-encoded form body
  produce. \<open>Num n\<close> is the Number whose value is the integer \<open>n\<close> (a Number is a
  double: beyond \<open>2^53\<close> not every integer is one), and the two infinities are what
  an integer too large for a double becomes. Numbers with a fraction, arrays and nested
  objects are outside the embedding. A string is a list of code units below 256.
\<close>

datatype jsval =
  Undefined | Null | Bool bool | Num int | NaN | PosInfinity | NegInfinity | Str string

text \<open>An object is the list of its own properties; reading an absent property gives
  \<open>Undefined\<close>.\<close>

type_synonym jsobj = "(string \<times> jsval) list"

definition get :: "jsobj \<Rightarrow> string \<Rightarrow> jsval" where
  "get obj k = (case map_of obj k of None \<Rightarrow> Undefined | Some v \<Rightarrow> v)"

datatype js_error = TypeError | StoreError

text \<open>ToBoolean: what \<^verbatim>\<open>!x\<close>, \<^verbatim>\<open>x && y\<close> and \<^verbatim>\<open>x || y\<close> test.\<close>

fun truthy :: "jsval \<Rightarrow> bool" where
  "truthy Undefined = False"
| "truthy Null = False"
| "truthy (Bool b) = b"
| "truthy (Num n) = (n \<noteq> 0)"
| "truthy NaN = False"
| "truthy PosInfinity = True"
| "truthy NegInfinity = True"
| "truthy (Str s) = (s \<noteq> [])"

definition jsOr :: "jsval \<Rightarrow> jsval \<Rightarrow> jsval" where
  "jsOr a b = (if truthy a then a else b)"

fun isString :: "jsval \<Rightarrow> bool" where
  "isString (Str s) = True"
| "isString v = False"

subsection \<open>Characters and strings\<close>

definition isDigit :: "char \<Rightarrow> bool" where
  "isDigit c = (let n = (of_char c :: nat) in 48 \<le> n \<and> n \<le> 57)"

definition isAlpha :: "char \<Rightarrow> bool" where
  "isAlpha c = (let n = (of_char c :: nat) in (65 \<le> n \<and> n \<le> 90) \<or> (97 \<le> n \<and> n \<le> 122))"

definition isAlnum :: "char \<Rightarrow> bool" where
  "isAlnum c = (isAlpha c \<or> isDigit c)"

text \<open>White space and line terminators, as \<^verbatim>\<open>String.prototype.trim\<close> and
  \<^verbatim>\<open>parseInt\<close> skip them: TAB, LF, VT, FF, CR, space and the no-break space.\<close>

definition isSpace :: "char \<Rightarrow> bool" where
  "isSpace c = ((of_char c :: nat) \<in> {9, 10, 11, 12, 13, 32, 160})"

definition trimStart :: "string \<Rightarrow> string" where
  "trimStart s = dropWhile isSpace s"

definition trim :: "string \<Rightarrow> string" where
  "trim s = rev (dropWhile isSpace (rev (dropWhile isSpace s)))"

text \<open>The decimal digits of a non-negative integer.\<close>

function showInt :: "int \<Rightarrow> string" where
  "showInt n = (if n < 10 then [''0123456789'' ! nat n]
                else showInt (n div 10) @ [''0123456789'' ! nat (n mod 10)])"
  by pat_completeness auto
termination
  by (relation "measure nat") auto

declare showInt.simps [simp del]

subsection \<open>Numbers\<close>

text \<open>
  The double nearest to a non-negative integer, ties to the even mantissa: below
  \<open>2^53\<close> the integer itself, above it the 53 leading bits, rounded. A result of
  \<open>2^1024\<close> or more stands for an overflow.
\<close>

function bitLength :: "int \<Rightarrow> nat" where
  "bitLength n = (if n \<le> 0 then 0 else Suc (bitLength (n div 2)))"
  by pat_completeness auto
termination
  by (relation "measure nat") auto

declare bitLength.simps [simp del]

definition roundDouble :: "int \<Rightarrow> int" where
  "roundDouble m =
     (if m < 2 ^ 53 then m
      else (let sh = bitLength m - 53;
                q = m div 2 ^ sh;
                r = m mod 2 ^ sh;
                half = 2 ^ (sh - 1)
            in if r > half \<or> (r = half \<and> odd q) then (q + 1) * 2 ^ sh else q * 2 ^ sh))"

definition toNumber :: "bool \<Rightarrow> int \<Rightarrow> jsval" where
  "toNumber neg m =
     (if m < 2 ^ 53 then Num (if neg then - m else m)
      else (let d = roundDouble m in
        if d \<ge> 2 ^ 1024 then (if neg then NegInfinity else PosInfinity)
        else Num (if neg then - d else d)))"

text \<open>
  Number to string, for a non-negative integral Number \<open>x\<close>: the fewest decimal digits
  \<open>s\<close> and the power \<open>p\<close> of ten such that \<open>s * 10^p\<close> rounds to \<open>x\<close> (the nearer
  candidate, the even one on a tie), printed as the digits and \<open>p\<close> zeros while the number
  is below \<open>10^21\<close>, and in exponent notation (\<^verbatim>\<open>1e+21\<close>, \<^verbatim>\<open>1.5e+300\<close>) from there
  on. Below \<open>2^53\<close> these digits are the integer's own. For an \<open>x\<close> that no Number has,
  the search ends with the digits of \<open>x\<close>.
\<close>

definition fitAt :: "int \<Rightarrow> nat \<Rightarrow> (int \<times> nat) option" where
  "fitAt x p =
     (let lo = x div 10 ^ p;
          okLo = (roundDouble (lo * 10 ^ p) = x);
          okHi = (roundDouble ((lo + 1) * 10 ^ p) = x)
      in if okLo \<and> okHi
         then (if x - lo * 10 ^ p < (lo + 1) * 10 ^ p - x then Some (lo, p)
               else if (lo + 1) * 10 ^ p - x < x - lo * 10 ^ p then Some (lo + 1, p)
               else if even lo then Some (lo, p) else Some (lo + 1, p))
         else if okLo then Some (lo, p)
         else if okHi then Some (lo + 1, p)
         else None)"

fun firstFit :: "int \<Rightarrow> nat list \<Rightarrow> int \<times> nat" where
  "firstFit x [] = (x, 0)"
| "firstFit x (p # ps) = (case fitAt x p of Some r \<Rightarrow> r | None \<Rightarrow> firstFit x ps)"

definition shortestDigits :: "int \<Rightarrow> int \<times> nat" where
  "shortestDigits x = firstFit x (rev [0..<length (showInt x)])"

definition showNumber :: "int \<Rightarrow> string" where
  "showNumber x =
     (if x < 2 ^ 53 then showInt x
      else (case shortestDigits x of (s, p) \<Rightarrow>
        (let ds = showInt s; e = length ds + p - 1
         in if e < 21 then ds @ replicate p (CHR ''0'')
            else (let ms = rev (dropWhile (\<lambda>c. c = CHR ''0'') (rev ds))
                  in take 1 ms @ (if length ms > 1 then CHR ''.'' # drop 1 ms else [])
                     @ ''e+'' @ showInt (int e)))))"

text \<open>ToString, as \<^verbatim>\<open>x.toString()\<close> and the argument conversion of
  \<^verbatim>\<open>parseInt\<close> compute it.\<close>

fun toString :: "jsval \<Rightarrow> string" where
  "toString Undefined = ''undefined''"
| "toString Null = ''null''"
| "toString (Bool b) = (if b then ''true'' else ''false'')"
| "toString (Num n) = (if n < 0 then CHR ''-'' # showNumber (- n) else showNumber n)"
| "toString NaN = ''NaN''"
| "toString PosInfinity = ''Infinity''"
| "toString NegInfinity = ''-Infinity''"
| "toString (Str s) = s"

definition digitVal :: "char \<Rightarrow> nat" where
  "digitVal c = (let n = (of_char c :: nat) in
     if 48 \<le> n \<and> n \<le> 57 then n - 48
     else if 97 \<le> n \<and> n \<le> 102 then n - 87
     else if 65 \<le> n \<and> n \<le> 70 then n - 55
     else 99)"

definition isRadixDigit :: "nat \<Rightarrow> char \<Rightarrow> bool" where
  "isRadixDigit radix c = (digitVal c < radix)"

definition digitsValue :: "nat \<Rightarrow> string \<Rightarrow> int" where
  "digitsValue radix z = foldl (\<lambda>acc c. acc * int radix + int (digitVal c)) 0 z"

text \<open>
  \<^verbatim>\<open>parseInt(x)\<close> with no radix: convert to a string, skip leading white space, read a
  sign, switch to radix 16 after \<^verbatim>\<open>0x\<close> or \<^verbatim>\<open>0X\<close>, read the longest run of digits and
  ignore what follows; no digit at all gives \<open>NaN\<close>. The result is the Number nearest
  to the integer read.
\<close>

definition parseInt :: "jsval \<Rightarrow> jsval" where
  "parseInt v =
     (let s = trimStart (toString v);
          neg = (case s of c # cs \<Rightarrow> c = CHR ''-'' | [] \<Rightarrow> False);
          s1 = (case s of c # cs \<Rightarrow> if c = CHR ''-'' \<or> c = CHR ''+'' then cs else s | [] \<Rightarrow> s);
          hex = (case s1 of a # b # cs \<Rightarrow> a = CHR ''0'' \<and> (b = CHR ''x'' \<or> b = CHR ''X'')
                 | _ \<Rightarrow> False);
          radix = (if hex then 16 else 10);
          s2 = (if hex then drop 2 s1 else s1);
          z = takeWhile (isRadixDigit radix) s2
      in if z = [] then NaN
         else toNumber neg (digitsValue radix z))"

section \<open>The validation module\<close>

subsection \<open>Field validators\<close>

text \<open>\<^verbatim>\<open>isValidName\<close>: a non-empty string whose trimmed form has 1 to 20 characters,
  all of them letters or digits.\<close>

definition isValidName :: "jsval \<Rightarrow> bool" where
  "isValidName name =
     (if \<not> truthy name then False
      else if \<not> isString name then False
      else (let trimmed = trim (toString name) in
        if length trimmed = 0 \<or> length trimmed > 20 then False
        else trimmed \<noteq> [] \<and> list_all isAlnum trimmed))"

text \<open>
  \<^verbatim>\<open>isValidEmail\<close> hands its argument to \<^verbatim>\<open>validator.isEmail\<close>. The validator
  package is a dependency of the repository, not part of it: its verdict on a string is
  the parameter \<open>isEmail\<close> of everything below. The package validates strings only and
  throws a TypeError on any other argument.
\<close>

definition isValidEmail :: "(string \<Rightarrow> bool) \<Rightarrow> jsval \<Rightarrow> js_error + bool" where
  "isValidEmail isEmail email =
     (case email of Str s \<Rightarrow> Inr (isEmail s) | _ \<Rightarrow> Inl TypeError)"

text \<open>\<^verbatim>\<open>isValidPhone\<close>: drop every non-digit of \<^verbatim>\<open>phone.toString()\<close>; exactly ten
  digits must remain.\<close>

definition isValidPhone :: "jsval \<Rightarrow> bool" where
  "isValidPhone phone =
     (if \<not> truthy phone then False
      else (let cleaned = filter isDigit (toString phone) in
        length cleaned = 10 \<and> list_all isDigit cleaned))"

text \<open>\<^verbatim>\<open>isValidEircode\<close> calls \<^verbatim>\<open>eircode.trim()\<close> on every truthy argument; only a
  string has that method.\<close>

definition isValidEircode :: "jsval \<Rightarrow> js_error + bool" where
  "isValidEircode eircode =
     (if \<not> truthy eircode then Inr False
      else (case eircode of
          Str s \<Rightarrow> (let cleaned = trim s in
            Inr (case cleaned of
                c # cs \<Rightarrow> isDigit c \<and> length cs = 5 \<and> list_all isAlnum cs
              | [] \<Rightarrow> False))
        | _ \<Rightarrow> Inl TypeError))"

definition isValidAge :: "jsval \<Rightarrow> bool" where
  "isValidAge age =
     (let ageNum = parseInt age in
      case ageNum of Num n \<Rightarrow> n \<ge> 0 \<and> n \<le> 120 | _ \<Rightarrow> False)"

subsection \<open>Sanitizer\<close>

text \<open>
  \<^verbatim>\<open>replace(/<[^>]*>/g, '')\<close>: scanning from the left, a \<^verbatim>\<open><\<close> that has a
  \<^verbatim>\<open>>\<close> somewhere after it is removed together with everything up to and including the
  first such \<^verbatim>\<open>>\<close>; any other character is kept.
\<close>

function stripTags :: "string \<Rightarrow> string" where
  "stripTags [] = []"
| "stripTags (c # cs) =
     (if c = CHR ''<'' \<and> CHR ''>'' \<in> set cs
      then stripTags (drop 1 (dropWhile (\<lambda>x. x \<noteq> CHR ''>'') cs))
      else c # stripTags cs)"
  by pat_completeness auto
termination
proof (relation "measure length")
  show "wf (measure length)" by simp
next
  fix c :: char and cs :: string
  have "length (dropWhile (\<lambda>x. x \<noteq> CHR ''>'') cs) \<le> length cs"
    by (rule length_dropWhile_le)
  then show "(drop 1 (dropWhile (\<lambda>x. x \<noteq> CHR ''>'') cs), c # cs) \<in> measure length"
    by simp
next
  fix c :: char and cs :: string
  show "(cs, c # cs) \<in> measure length" by simp
qed

definition isSpecial :: "char \<Rightarrow> bool" where
  "isSpecial c = (c = CHR ''<'' \<or> c = CHR ''>'' \<or> c = CHR 0x22 \<or> c = CHR 0x27 \<or> c = CHR ''&'')"

definition removeSpecial :: "string \<Rightarrow> string" where
  "removeSpecial s = filter (\<lambda>c. \<not> isSpecial c) s"

definition sanitizeInput :: "jsval \<Rightarrow> jsval" where
  "sanitizeInput input =
     (case input of
        Str s \<Rightarrow> Str (trim (removeSpecial (stripTags s)))
      | _ \<Rightarrow> input)"

definition sanitizeRecord :: "jsobj \<Rightarrow> jsobj" where
  "sanitizeRecord record =
     map (\<lambda>(key, val). if isString val then (key, sanitizeInput val) else (key, val)) record"

subsection \<open>Record validator\<close>

definition msgFirstName :: string where
  "msgFirstName = ''First name must contain only letters/numbers and be max 20 characters''"

definition msgLastName :: string where
  "msgLastName = ''Last name must contain only letters/numbers and be max 20 characters''"

definition msgEmail :: string where
  "msgEmail = ''Invalid email format''"

definition msgPhoneRequired :: string where
  "msgPhoneRequired = ''Phone number is required''"

definition msgPhone :: string where
  "msgPhone = ''Phone number must be exactly 10 digits''"

definition msgEircodeRequired :: string where
  "msgEircodeRequired = ''Eircode is required''"

definition msgEircode :: string where
  "msgEircode = ''Eircode must start with a number and be exactly 6 alphanumeric characters''"

definition msgAge :: string where
  "msgAge = ''Age must be a number between 0 and 120''"

record validation_result =
  isValid :: bool
  errors :: "string list"

text \<open>The three checks every source shares, in the order of the source; the email check
  can throw.\<close>

definition commonChecks :: "(string \<Rightarrow> bool) \<Rightarrow> jsobj \<Rightarrow> js_error + string list" where
  "commonChecks isEmail record =
     (let errors0 = [];
          errors1 = (if \<not> isValidName (get record ''first_name'')
                     then errors0 @ [msgFirstName] else errors0);
          errors2 = (if \<not> isValidName (get record ''last_name'')
                     then errors1 @ [msgLastName] else errors1)
      in case isValidEmail isEmail (get record ''email'') of
           Inl e \<Rightarrow> Inl e
         | Inr ok \<Rightarrow> Inr (if \<not> ok then errors2 @ [msgEmail] else errors2))"

text \<open>The branch \<^verbatim>\<open>source === 'form'\<close>.\<close>

definition formChecks :: "jsobj \<Rightarrow> string list \<Rightarrow> js_error + string list" where
  "formChecks record errors0 =
     (let errors1 =
        (if \<not> truthy (get record ''phone_number'') then errors0 @ [msgPhoneRequired]
         else if \<not> isValidPhone (get record ''phone_number'') then errors0 @ [msgPhone]
         else errors0)
      in if \<not> truthy (get record ''eircode'') then Inr (errors1 @ [msgEircodeRequired])
         else (case isValidEircode (get record ''eircode'') of
                 Inl e \<Rightarrow> Inl e
               | Inr ok \<Rightarrow> Inr (if \<not> ok then errors1 @ [msgEircode] else errors1)))"

text \<open>The branch \<^verbatim>\<open>source === 'csv'\<close>: the age rule runs behind the guard
  \<^verbatim>\<open>record.age &&\<close>.\<close>

definition csvChecks :: "jsobj \<Rightarrow> string list \<Rightarrow> string list" where
  "csvChecks record errors0 =
     (if truthy (get record ''age'') \<and> \<not> isValidAge (get record ''age'')
      then errors0 @ [msgAge] else errors0)"

definition validateRecord ::
  "(string \<Rightarrow> bool) \<Rightarrow> jsobj \<Rightarrow> string \<Rightarrow> js_error + validation_result" where
  "validateRecord isEmail record source =
     (case commonChecks isEmail record of
        Inl e \<Rightarrow> Inl e
      | Inr errors3 \<Rightarrow>
          (case (if source = ''form'' then formChecks record errors3
                 else if source = ''csv'' then Inr (csvChecks record errors3)
                 else Inr errors3) of
             Inl e \<Rightarrow> Inl e
           | Inr errs \<Rightarrow> Inr \<lparr>isValid = (length errs = 0), errors = errs\<rparr>))"

section \<open>The database module\<close>

text \<open>
  One row of \<^verbatim>\<open>mysql_table\<close> (the generated id and the creation time are left out) and
  the two statements the module sends, each with its bound parameters:
  \<open>UpsertRecord\<close> is the six-column statement of \<^verbatim>\<open>insertRecord\<close>, \<open>UpsertCsv\<close> the
  four-column statement of the bulk insert. Both are INSERT ... ON DUPLICATE KEY UPDATE on
  the unique email; the key is compared exactly.
\<close>

record db_row =
  col_first_name :: jsval
  col_last_name :: jsval
  col_email :: jsval
  col_phone_number :: jsval
  col_eircode :: jsval
  col_age :: jsval

datatype statement =
    UpsertRecord jsval jsval jsval jsval jsval jsval
  | UpsertCsv jsval jsval jsval jsval

type_synonym table = "db_row list"

fun applyStatement :: "statement \<Rightarrow> table \<Rightarrow> table" where
  "applyStatement (UpsertRecord f l e p c a) t =
     (if e \<in> set (map col_email t)
      then map (\<lambda>r. if col_email r = e
                     then r\<lparr>col_first_name := f, col_last_name := l, col_phone_number := p,
                            col_eircode := c, col_age := a\<rparr>
                     else r) t
      else t @ [\<lparr>col_first_name = f, col_last_name = l, col_email = e,
                  col_phone_number = p, col_eircode = c, col_age = a\<rparr>])"
| "applyStatement (UpsertCsv f l e a) t =
     (if e \<in> set (map col_email t)
      then map (\<lambda>r. if col_email r = e
                     then r\<lparr>col_first_name := f, col_last_name := l, col_age := a\<rparr>
                     else r) t
      else t @ [\<lparr>col_first_name = f, col_last_name = l, col_email = e,
                  col_phone_number = Null, col_eircode = Null, col_age = a\<rparr>])"

text \<open>
  The store as the module sees it: the committed table, and the transaction open on the
  connection that \<^verbatim>\<open>getConnection\<close> handed out (\<open>None\<close> when there is none), as the
  statements it has executed and not yet committed.
\<close>

record store =
  committed :: table
  pending :: "statement list option"

text \<open>
  What the store refuses is not the program's choice: \<open>faults\<close> says whether taking a
  connection, opening the transaction or committing fails, and which statement of a call
  (by position and content) is refused.
\<close>

record faults =
  conn_fails :: bool
  begin_fails :: bool
  exec_fails :: "nat \<Rightarrow> statement \<Rightarrow> bool"
  commit_fails :: bool

text \<open>
  A statement is refused before it reaches the store when a bound parameter is
  \<^verbatim>\<open>undefined\<close> (the driver throws a TypeError), and by the store when \<open>faults\<close> says
  so.
\<close>

fun stmtParams :: "statement \<Rightarrow> jsval list" where
  "stmtParams (UpsertRecord f l e p c a) = [f, l, e, p, c, a]"
| "stmtParams (UpsertCsv f l e a) = [f, l, e, a]"

fun stmtEmail :: "statement \<Rightarrow> jsval" where
  "stmtEmail (UpsertRecord f l e p c a) = e"
| "stmtEmail (UpsertCsv f l e a) = e"

fun stmtAge :: "statement \<Rightarrow> jsval" where
  "stmtAge (UpsertRecord f l e p c a) = a"
| "stmtAge (UpsertCsv f l e a) = a"

definition refused :: "faults \<Rightarrow> nat \<Rightarrow> statement \<Rightarrow> js_error option" where
  "refused fl i stmt =
     (if Undefined \<in> set (stmtParams stmt) then Some TypeError
      else if exec_fails fl i stmt then Some StoreError
      else None)"

definition beginTransaction :: "faults \<Rightarrow> store \<Rightarrow> js_error option \<times> store" where
  "beginTransaction fl st =
     (if begin_fails fl then (Some StoreError, st) else (None, st\<lparr>pending := Some []\<rparr>))"

text \<open>\<^verbatim>\<open>connection.execute\<close>: a statement on the connection that holds the transaction.\<close>

definition conn_execute :: "faults \<Rightarrow> nat \<Rightarrow> statement \<Rightarrow> store \<Rightarrow> js_error option \<times> store" where
  "conn_execute fl i stmt st =
     (case refused fl i stmt of
        Some e \<Rightarrow> (Some e, st)
      | None \<Rightarrow>
          (case pending st of
             Some ps \<Rightarrow> (None, st\<lparr>pending := Some (ps @ [stmt])\<rparr>)
           | None \<Rightarrow> (None, st\<lparr>committed := applyStatement stmt (committed st)\<rparr>)))"

text \<open>\<^verbatim>\<open>pool.execute\<close>: a statement on some other connection of the pool, which is in
  autocommit mode.\<close>

definition pool_execute :: "faults \<Rightarrow> nat \<Rightarrow> statement \<Rightarrow> store \<Rightarrow> js_error option \<times> store" where
  "pool_execute fl i stmt st =
     (case refused fl i stmt of
        Some e \<Rightarrow> (Some e, st)
      | None \<Rightarrow> (None, st\<lparr>committed := applyStatement stmt (committed st)\<rparr>))"

definition commit :: "faults \<Rightarrow> store \<Rightarrow> js_error option \<times> store" where
  "commit fl st =
     (if commit_fails fl then (Some StoreError, st)
      else (case pending st of
              Some ps \<Rightarrow> (None, st\<lparr>committed := foldl (\<lambda>t s. applyStatement s t) (committed st) ps,
                                    pending := None\<rparr>)
            | None \<Rightarrow> (None, st)))"

definition rollback :: "store \<Rightarrow> store" where
  "rollback st = st\<lparr>pending := None\<rparr>"

text \<open>\<^verbatim>\<open>insertRecord\<close> (the same in both copies of the module): the six parameters, the
  optional ones through \<^verbatim>\<open>|| null\<close>, sent with \<^verbatim>\<open>this.execute\<close>, that is
  \<^verbatim>\<open>this.pool.execute\<close>.\<close>

definition insertRecordParams :: "jsobj \<Rightarrow> statement" where
  "insertRecordParams data =
     UpsertRecord (get data ''first_name'') (get data ''last_name'') (get data ''email'')
       (jsOr (get data ''phone_number'') Null)
       (jsOr (get data ''eircode'') Null)
       (jsOr (get data ''age'') Null)"

definition insertRecord :: "faults \<Rightarrow> nat \<Rightarrow> jsobj \<Rightarrow> store \<Rightarrow> js_error option \<times> store" where
  "insertRecord fl i data st = pool_execute fl i (insertRecordParams data) st"

record bulk_result =
  success :: bool
  count :: nat

text \<open>\<^verbatim>\<open>insertBulkRecords\<close> of database.js lines 136-154: the loop calls
  \<^verbatim>\<open>this.insertRecord\<close>.\<close>

fun insertAll_v1 :: "faults \<Rightarrow> nat \<Rightarrow> jsobj list \<Rightarrow> store \<Rightarrow> js_error option \<times> store" where
  "insertAll_v1 fl i [] st = (None, st)"
| "insertAll_v1 fl i (r # rs) st =
     (case insertRecord fl i r st of
        (Some e, st') \<Rightarrow> (Some e, st')
      | (None, st') \<Rightarrow> insertAll_v1 fl (Suc i) rs st')"

definition insertBulkRecords_v1 ::
  "faults \<Rightarrow> jsobj list \<Rightarrow> store \<Rightarrow> (js_error + bulk_result) \<times> store" where
  "insertBulkRecords_v1 fl records st =
     (if conn_fails fl then (Inl StoreError, st)
      else (case (case beginTransaction fl st of
                    (Some e, s1) \<Rightarrow> (Some e, s1)
                  | (None, s1) \<Rightarrow>
                      (case insertAll_v1 fl 0 records s1 of
                         (Some e, s2) \<Rightarrow> (Some e, s2)
                       | (None, s2) \<Rightarrow> commit fl s2)) of
              (Some e, s3) \<Rightarrow> (Inl e, rollback s3)
            | (None, s3) \<Rightarrow> (Inr \<lparr>success = True, count = length records\<rparr>, s3)))"

text \<open>\<^verbatim>\<open>insertBulkRecords\<close> of database.js lines 308-341: the loop sends the
  four-column statement with \<^verbatim>\<open>connection.execute\<close>.\<close>

definition bulkParams :: "jsobj \<Rightarrow> statement" where
  "bulkParams record =
     UpsertCsv (get record ''first_name'') (get record ''last_name'') (get record ''email'')
       (jsOr (get record ''age'') Null)"

fun insertAll_v2 :: "faults \<Rightarrow> nat \<Rightarrow> jsobj list \<Rightarrow> store \<Rightarrow> js_error option \<times> store" where
  "insertAll_v2 fl i [] st = (None, st)"
| "insertAll_v2 fl i (r # rs) st =
     (case conn_execute fl i (bulkParams r) st of
        (Some e, st') \<Rightarrow> (Some e, st')
      | (None, st') \<Rightarrow> insertAll_v2 fl (Suc i) rs st')"

definition insertBulkRecords_v2 ::
  "faults \<Rightarrow> jsobj list \<Rightarrow> store \<Rightarrow> (js_error + bulk_result) \<times> store" where
  "insertBulkRecords_v2 fl records st =
     (if conn_fails fl then (Inl StoreError, st)
      else (case (case beginTransaction fl st of
                    (Some e, s1) \<Rightarrow> (Some e, s1)
                  | (None, s1) \<Rightarrow>
                      (case insertAll_v2 fl 0 records s1 of
                         (Some e, s2) \<Rightarrow> (Some e, s2)
                       | (None, s2) \<Rightarrow> commit fl s2)) of
              (Some e, s3) \<Rightarrow> (Inl e, rollback s3)
            | (None, s3) \<Rightarrow> (Inr \<lparr>success = True, count = length records\<rparr>, s3)))"

section \<open>The server\<close>

text \<open>
  An entry of the summary's error list: a row the validator rejected (row number, the
  candidate record, its violations) or a row whose processing threw (row number, the
  error).
\<close>

datatype error_entry = RowRejected nat jsobj "string list" | RowFailed nat js_error

datatype response =
    Json400 string
  | Json400Errors string "string list"
  | Json500 string
  | JsonSummary nat nat nat "error_entry list"

text \<open>The file multer stored: its path, the rows csv-parser emits for it (header name to
  cell text), and whether the read stream ends in an error.\<close>

record upload =
  path :: string
  rows :: "jsobj list"
  read_error :: bool

text \<open>What a request can change: the store, the files of the upload directory, and (for
  the record) the argument of every \<^verbatim>\<open>insertBulkRecords\<close> call made.\<close>

record world =
  db :: store
  files :: "string list"
  bulk_calls :: "jsobj list list"

text \<open>The \<^verbatim>\<open>'data'\<close> handler of \<^verbatim>\<open>handleCSVUpload\<close>, on the accumulated
  \<^verbatim>\<open>records\<close>, \<^verbatim>\<open>errors\<close> and \<^verbatim>\<open>rowNumber\<close>.\<close>

definition csvRecord :: "jsobj \<Rightarrow> jsobj" where
  "csvRecord row =
     [(''first_name'', get row ''first_name''),
      (''last_name'', get row ''last_name''),
      (''email'', get row ''email''),
      (''age'', parseInt (get row ''age''))]"

definition onData ::
  "(string \<Rightarrow> bool) \<Rightarrow> jsobj \<Rightarrow> jsobj list \<times> error_entry list \<times> nat
     \<Rightarrow> jsobj list \<times> error_entry list \<times> nat" where
  "onData isEmail row acc =
     (case acc of (records, errs, rowNumber0) \<Rightarrow>
        (let rowNumber = rowNumber0 + 1;
             record = csvRecord row
         in case validateRecord isEmail record ''csv'' of
              Inl e \<Rightarrow> (records, errs @ [RowFailed rowNumber e], rowNumber)
            | Inr validation \<Rightarrow>
                if isValid validation
                then (records @ [sanitizeRecord record], errs, rowNumber)
                else (records, errs @ [RowRejected rowNumber record (errors validation)],
                      rowNumber)))"

definition readRows ::
  "(string \<Rightarrow> bool) \<Rightarrow> jsobj list \<Rightarrow> jsobj list \<times> error_entry list \<times> nat" where
  "readRows isEmail rs = foldl (\<lambda>acc row. onData isEmail row acc) ([], [], 0) rs"

text \<open>
  \<^verbatim>\<open>handleCSVUpload\<close>. The database module it requires exists in two copies, so its
  \<^verbatim>\<open>insertBulkRecords\<close> is the parameter \<open>bulk\<close>. Every exception of the body ends in
  the outer \<^verbatim>\<open>catch\<close>, which answers 500; \<^verbatim>\<open>fs.unlink\<close> is the statement after the
  bulk insert and rejects when the file is not there.
\<close>

definition handleCSVUpload ::
  "(string \<Rightarrow> bool) \<Rightarrow> (faults \<Rightarrow> jsobj list \<Rightarrow> store \<Rightarrow> (js_error + bulk_result) \<times> store)
     \<Rightarrow> faults \<Rightarrow> upload option \<Rightarrow> world \<Rightarrow> response \<times> world" where
  "handleCSVUpload isEmail bulk fl req w =
     (case req of
        None \<Rightarrow> (Json400 ''No CSV file uploaded'', w)
      | Some file \<Rightarrow>
          (case readRows isEmail (rows file) of (records, errs, rowNumber) \<Rightarrow>
             if read_error file then (Json500 ''Failed to process CSV file'', w)
             else (case (if length records > 0
                         then (case bulk fl records (db w) of
                                 (Inl e, st) \<Rightarrow>
                                   (Some e, w\<lparr>db := st, bulk_calls := bulk_calls w @ [records]\<rparr>)
                               | (Inr r, st) \<Rightarrow>
                                   (None, w\<lparr>db := st, bulk_calls := bulk_calls w @ [records]\<rparr>))
                         else (None, w)) of
                     (Some e, w1) \<Rightarrow> (Json500 ''Failed to process CSV file'', w1)
                   | (None, w1) \<Rightarrow>
                       if path file \<in> set (files w1)
                       then (JsonSummary rowNumber (length records) (length errs) errs,
                             w1\<lparr>files := removeAll (path file) (files w1)\<rparr>)
                       else (Json500 ''Failed to process CSV file'', w1))))"

subsection \<open>The form middleware\<close>

datatype mw_outcome = Responded response | Next jsobj

definition requiredFields :: "string list" where
  "requiredFields = [''firstName'', ''lastName'', ''email'', ''phoneNumber'', ''eircode'']"

definition formData :: "jsobj \<Rightarrow> jsobj" where
  "formData body =
     [(''first_name'', jsOr (get body ''firstName'') (get body ''first_name'')),
      (''last_name'', jsOr (get body ''lastName'') (get body ''last_name'')),
      (''email'', get body ''email''),
      (''phone_number'', jsOr (get body ''phoneNumber'') (get body ''phone_number'')),
      (''eircode'', get body ''eircode'')]"

text \<open>\<^verbatim>\<open>validateFormInput\<close>: \<open>Next\<close> carries the request body as the middleware leaves
  it for the handler.\<close>

definition validateFormInput :: "(string \<Rightarrow> bool) \<Rightarrow> jsobj \<Rightarrow> mw_outcome" where
  "validateFormInput isEmail body0 =
     (let body = sanitizeRecord body0 in
      case find (\<lambda>field. \<not> truthy (get body field)) requiredFields of
        Some field \<Rightarrow> Responded (Json400 (''Missing required field: '' @ field))
      | None \<Rightarrow>
          (case validateRecord isEmail (formData body) ''form'' of
             Inl e \<Rightarrow> Responded (Json500 ''Internal server error during validation'')
           | Inr validation \<Rightarrow>
               if \<not> isValid validation
               then Responded (Json400Errors ''Validation failed'' (errors validation))
               else Next body))"

section \<open>An instance of the email check\<close>

text \<open>
  For evaluating the handlers on concrete requests the parameter \<open>isEmail\<close> needs a value.
  \<open>plainEmail\<close> is the shape \<^verbatim>\<open>validator.isEmail\<close> accepts under its default options,
  restricted to addresses with an unquoted local part and a host name: one \<^verbatim>\<open>@\<close>; the
  local part is dot-separated, non-empty runs of letters, digits and the printable
  specials; the domain has at least two dot-separated labels of letters, digits and inner
  hyphens, the last one alphabetic and at least two long. No general theorem depends on it.
\<close>

fun splitOn :: "char \<Rightarrow> string \<Rightarrow> string list" where
  "splitOn d [] = [[]]"
| "splitOn d (c # cs) =
     (if c = d then [] # splitOn d cs
      else (case splitOn d cs of p # ps \<Rightarrow> (c # p) # ps | [] \<Rightarrow> [[c]]))"

definition isAtext :: "char \<Rightarrow> bool" where
  "isAtext c = (isAlnum c \<or> c \<in> set ''!#$%&*+-/=?^_`{|}~'' \<or> c = CHR 0x27)"

definition isLabel :: "string \<Rightarrow> bool" where
  "isLabel l = (l \<noteq> [] \<and> list_all (\<lambda>c. isAlnum c \<or> c = CHR ''-'') l
                \<and> hd l \<noteq> CHR ''-'' \<and> last l \<noteq> CHR ''-'')"

definition plainEmail :: "string \<Rightarrow> bool" where
  "plainEmail s =
     (case splitOn (CHR ''@'') s of
        [user, domain] \<Rightarrow>
          length s \<le> 254 \<and> length user \<le> 64
          \<and> list_all (\<lambda>p. p \<noteq> [] \<and> list_all isAtext p) (splitOn (CHR ''.'') user)
          \<and> (let labels = splitOn (CHR ''.'') domain in
               length labels \<ge> 2 \<and> list_all isLabel labels
               \<and> list_all isAlpha (last labels) \<and> length (last labels) \<ge> 2)
      | _ \<Rightarrow> False)"

section \<open>Sample data\<close>

text \<open>Inputs for evaluating the handlers: a store that refuses nothing, one that
  refuses the second statement of a call and one that hands out no connection; rows of
  uploaded files, the records and table rows they become, two uploads, the state before
  a request, and two form bodies.\<close>

definition noFaults :: faults where
  "noFaults = \<lparr>conn_fails = False, begin_fails = False,
                exec_fails = (\<lambda>i s. False), commit_fails = False\<rparr>"

definition secondRefused :: faults where
  "secondRefused = \<lparr>conn_fails = False, begin_fails = False,
                     exec_fails = (\<lambda>i s. i = 1), commit_fails = False\<rparr>"

definition noConnection :: faults where
  "noConnection = \<lparr>conn_fails = True, begin_fails = False,
                    exec_fails = (\<lambda>i s. False), commit_fails = False\<rparr>"

definition rowAnn :: jsobj where
  "rowAnn = [(''first_name'', Str ''Ann''), (''last_name'', Str ''Lee''),
             (''email'', Str ''ann@example.com''), (''age'', Str ''30'')]"

definition rowBob :: jsobj where
  "rowBob = [(''first_name'', Str ''Bob''), (''last_name'', Str ''Ray''),
             (''email'', Str ''bob.example.com''), (''age'', Str ''41'')]"

definition rowCat :: jsobj where
  "rowCat = [(''first_name'', Str ''Cat''), (''last_name'', Str ''Fox''),
             (''email'', Str ''cat@example.com''), (''age'', Str ''200'')]"

definition rowDan :: jsobj where
  "rowDan = [(''first_name'', Str ''Dan''), (''last_name'', Str ''Roe''),
             (''email'', Str ''dan@example.com''), (''age'', Str ''52'')]"

definition emptyStore :: store where
  "emptyStore = \<lparr>committed = [], pending = None\<rparr>"

definition rowEve :: jsobj where
  "rowEve = [(''first_name'', Str ''Eve''), (''last_name'', Str ''Kim''),
             (''email'', Str ''eve@example.com''), (''age'', Str ''abc'')]"

definition dataZero :: jsobj where
  "dataZero = [(''first_name'', Str ''Ann''), (''last_name'', Str ''Lee''),
               (''email'', Str ''ann@example.com''), (''phone_number'', Str []),
               (''eircode'', Str []), (''age'', Num 0)]"

definition recEve :: jsobj where
  "recEve = [(''first_name'', Str ''Eve''), (''last_name'', Str ''Kim''),
             (''email'', Str ''eve@example.com''), (''age'', NaN)]"

definition recZed :: jsobj where
  "recZed = [(''first_name'', Str ''Zed''), (''last_name'', Str ''Orr''),
             (''email'', Str ''zed@example.com''), (''age'', Num 0)]"

definition tableAnnZed :: table where
  "tableAnnZed =
     [\<lparr>col_first_name = Str ''Ann'', col_last_name = Str ''Lee'',
       col_email = Str ''ann@example.com'', col_phone_number = Null,
       col_eircode = Null, col_age = Num 30\<rparr>,
      \<lparr>col_first_name = Str ''Zed'', col_last_name = Str ''Orr'',
       col_email = Str ''zed@example.com'', col_phone_number = Null,
       col_eircode = Null, col_age = Null\<rparr>]"

definition uploadEve :: upload where
  "uploadEve = \<lparr>path = ''uploads/7f3a'', rows = [rowEve], read_error = False\<rparr>"

definition tableEve :: table where
  "tableEve = [\<lparr>col_first_name = Str ''Eve'', col_last_name = Str ''Kim'',
                 col_email = Str ''eve@example.com'', col_phone_number = Null,
                 col_eircode = Null, col_age = Null\<rparr>]"

definition rowZero :: db_row where
  "rowZero = \<lparr>col_first_name = Str ''Ann'', col_last_name = Str ''Lee'',
               col_email = Str ''ann@example.com'', col_phone_number = Null,
               col_eircode = Null, col_age = Null\<rparr>"

definition recAnn :: jsobj where
  "recAnn = [(''first_name'', Str ''Ann''), (''last_name'', Str ''Lee''),
             (''email'', Str ''ann@example.com''), (''age'', Num 30)]"

definition recDan :: jsobj where
  "recDan = [(''first_name'', Str ''Dan''), (''last_name'', Str ''Roe''),
             (''email'', Str ''dan@example.com''), (''age'', Num 52)]"

definition tableAnn :: table where
  "tableAnn = [\<lparr>col_first_name = Str ''Ann'', col_last_name = Str ''Lee'',
                 col_email = Str ''ann@example.com'', col_phone_number = Null,
                 col_eircode = Null, col_age = Num 30\<rparr>]"

definition uploadAnnDan :: upload where
  "uploadAnnDan = \<lparr>path = ''uploads/7f3a'', rows = [rowAnn, rowDan], read_error = False\<rparr>"

definition uploadThree :: upload where
  "uploadThree = \<lparr>path = ''uploads/7f3a'', rows = [rowAnn, rowBob, rowCat], read_error = False\<rparr>"

definition world0 :: world where
  "world0 = \<lparr>db = emptyStore, files = [''uploads/7f3a''], bulk_calls = []\<rparr>"

definition rowTag :: jsobj where
  "rowTag = [(''first_name'', Str ''<b>Ann</b>''), (''last_name'', Str ''Lee''),
             (''email'', Str ''ann@example.com''), (''age'', Str ''30'')]"

definition bodyTag :: jsobj where
  "bodyTag = [(''firstName'', Str ''<b>Ann</b>''), (''lastName'', Str ''Lee''),
              (''email'', Str ''ann@example.com''), (''phoneNumber'', Str ''087-123-4567''),
              (''eircode'', Str ''1A2B3C'')]"

definition bodyNumber :: jsobj where
  "bodyNumber = [(''firstName'', Str ''Ann''), (''lastName'', Str ''Lee''),
                 (''email'', Str ''ann@example.com''), (''phoneNumber'', Str ''0871234567''),
                 (''eircode'', Num 123456)]"

section \<open>Numbers at the edges\<close>

text \<open>Where a Number stops being the integer read and where its string changes form.\<close>

lemma number_samples:
  "parseInt (Str ''9007199254740993'') = Num 9007199254740992"
  "parseInt (Str ''123456789012345678901'') = Num 123456789012345683968"
  "toString (Num 123456789012345683968) = ''123456789012345680000''"
  "toString (Num (2 ^ 60)) = ''1152921504606847000''"
  "parseInt (Str ''1000000000000000000000'') = Num (10 ^ 21)"
  "toString (Num (10 ^ 21)) = ''1e+21''"
  "toString (Num 99999999999999991611392) = ''1e+23''"
  "isValidAge (Num (10 ^ 21))"
  "\<not> isValidAge (Num (10 ^ 20))"
  by code_simp+

lemma number_overflow:
  "parseInt (Str ''1000000000000000000000000000000000000000000000000000000000000000000000000000000000000000000000000000000000000000000000000000000000000000000000000000000000000000000000000000000000000000000000000000000000000000000000000000000000000000000000000000000000000000000000000000000000000000000000000000000000000000000000'')
     = PosInfinity"
  "\<not> isValidAge PosInfinity"
  "toString (Num (- (10 ^ 21))) = ''-1e+21''"
  "\<not> isValidAge (Num (- (10 ^ 21)))"
  by code_simp+

section \<open>Properties of the sanitizer\<close>

subsection \<open>Trimming\<close>

lemma trim_fixed:
  assumes "s = [] \<or> \<not> isSpace (hd s)" and "s = [] \<or> \<not> isSpace (last s)"
  shows "trim s = s"
proof -
  have a: "dropWhile isSpace s = s" using assms(1) by (cases s) auto
  have b: "dropWhile isSpace (rev s) = rev s" using assms(2) by (cases "rev s") (auto simp: hd_rev)
  show ?thesis by (simp add: trim_def a b)
qed

lemma last_dropWhile: "dropWhile P xs \<noteq> [] \<Longrightarrow> last (dropWhile P xs) = last xs"
  by (induction xs) (auto split: if_splits)

lemma trim_ends:
  "(trim s = [] \<or> \<not> isSpace (hd (trim s))) \<and> (trim s = [] \<or> \<not> isSpace (last (trim s)))"
proof -
  define a where "a = dropWhile isSpace s"
  define b where "b = dropWhile isSpace (rev a)"
  have t: "trim s = rev b" by (simp add: trim_def a_def b_def)
  have l: "b = [] \<or> \<not> isSpace (hd b)"
    unfolding b_def using hd_dropWhile[of isSpace "rev a"] by blast
  have h: "b = [] \<or> \<not> isSpace (last b)"
  proof (cases "b = []")
    case True
    then show ?thesis by simp
  next
    case False
    then have "last b = last (rev a)"
      unfolding b_def by (rule last_dropWhile)
    moreover have na: "a \<noteq> []"
      using False unfolding b_def by auto
    ultimately have "last b = hd a" by (simp add: last_rev)
    moreover have "\<not> isSpace (hd a)"
      using na unfolding a_def by (rule hd_dropWhile)
    ultimately show ?thesis by simp
  qed
  show ?thesis using l h by (auto simp: t hd_rev last_rev)
qed

lemma trim_idem: "trim (trim s) = trim s"
  using trim_ends[of s] by (intro trim_fixed) auto

lemma set_trim_subset: "set (trim s) \<subseteq> set s"
proof -
  have "set (trim s) = set (dropWhile isSpace (rev (dropWhile isSpace s)))" by (simp add: trim_def)
  also have "\<dots> \<subseteq> set (rev (dropWhile isSpace s))" by (rule set_dropWhileD[THEN subsetI]) 
  also have "\<dots> \<subseteq> set s" using set_dropWhileD[of _ isSpace s] by auto
  finally show ?thesis .
qed

lemma set_trim_keeps: "c \<in> set s \<Longrightarrow> \<not> isSpace c \<Longrightarrow> c \<in> set (trim s)"
proof -
  assume c: "c \<in> set s" and n: "\<not> isSpace c"
  have k: "c \<in> set xs \<Longrightarrow> c \<in> set (dropWhile isSpace xs)" for xs
    using n by (induction xs) auto
  have "c \<in> set (rev (dropWhile isSpace s))" using k[OF c] by simp
  from k[OF this] show ?thesis by (simp add: trim_def)
qed

lemma stripTags_no_lt: "CHR ''<'' \<notin> set s \<Longrightarrow> stripTags s = s"
  by (induction s) auto

lemma removeSpecial_clean: "\<not> list_ex isSpecial s \<Longrightarrow> removeSpecial s = s"
  by (induction s) (auto simp: removeSpecial_def)

lemma removeSpecial_no_special: "\<not> list_ex isSpecial (removeSpecial s)"
  by (induction s) (auto simp: removeSpecial_def)

lemma sanitized_clean: "\<not> list_ex isSpecial (trim (removeSpecial (stripTags x)))"
  using set_trim_subset[of "removeSpecial (stripTags x)"] removeSpecial_no_special[of "stripTags x"]
  by (auto simp: list_ex_iff)

text \<open>
  Claim C9. The field sanitizer is idempotent on strings: sanitizing a sanitized string
  changes nothing, since the first pass leaves no \<^verbatim>\<open><\<close>, no other special character
  and no white space at either end.
\<close>

theorem sanitizeInput_idempotent:
  "sanitizeInput (sanitizeInput (Str x)) = sanitizeInput (Str x)"
proof -
  let ?y = "trim (removeSpecial (stripTags x))"
  have c: "\<not> list_ex isSpecial ?y" by (rule sanitized_clean)
  then have "CHR ''<'' \<notin> set ?y" by (auto simp: list_ex_iff isSpecial_def)
  then have 1: "stripTags ?y = ?y" by (rule stripTags_no_lt)
  have 2: "removeSpecial ?y = ?y" using c by (rule removeSpecial_clean)
  have 3: "trim ?y = ?y" by (rule trim_idem)
  show ?thesis by (simp add: sanitizeInput_def 1 2 3)
qed

section \<open>Properties of the field validators\<close>

lemma alnum_not_space: "isAlnum c \<Longrightarrow> \<not> isSpace c"
  by (auto simp: isAlnum_def isAlpha_def isDigit_def isSpace_def Let_def)

lemma trim_alnum: "list_all isAlnum s \<Longrightarrow> trim s = s"
proof (rule trim_fixed)
  assume a: "list_all isAlnum s"
  show "s = [] \<or> \<not> isSpace (hd s)"
    using a by (cases s) (auto dest: alnum_not_space)
  show "s = [] \<or> \<not> isSpace (last s)"
  proof (cases "s = []")
    case True then show ?thesis by simp
  next
    case False
    then have "last s \<in> set s" by simp
    then have "isAlnum (last s)" using a by (simp add: list_all_iff)
    then show ?thesis by (simp add: alnum_not_space)
  qed
qed

lemma isValidName_Str:
  "isValidName (Str s) \<longleftrightarrow> trim s \<noteq> [] \<and> length (trim s) \<le> 20 \<and> list_all isAlnum (trim s)"
proof (cases "s = []")
  case True
  then show ?thesis by (simp add: isValidName_def trim_def)
next
  case False
  then show ?thesis by (auto simp: isValidName_def Let_def)
qed

text \<open>
  Claim C7, as the code has it. The name validator trims before it measures and matches:
  it accepts a string exactly when the trimmed string has 1 to 20 characters, all letters
  or digits. So it accepts every string of 1 to 20 letters and digits, and rejects every
  string that contains a character that is neither letter, digit nor white space, the
  empty string, every string whose trimmed form is longer than 20, and every string with
  white space inside its trimmed form. White space at the ends is ignored.
\<close>

theorem isValidName_trimmed:
  "(isValidName (Str s) \<longleftrightarrow>
      trim s \<noteq> [] \<and> length (trim s) \<le> 20 \<and> list_all isAlnum (trim s))
   \<and> (s \<noteq> [] \<and> length s \<le> 20 \<and> list_all isAlnum s \<longrightarrow> isValidName (Str s))
   \<and> (list_ex (\<lambda>c. \<not> isAlnum c \<and> \<not> isSpace c) s \<longrightarrow> \<not> isValidName (Str s))
   \<and> (s = [] \<longrightarrow> \<not> isValidName (Str s))
   \<and> (length (trim s) > 20 \<longrightarrow> \<not> isValidName (Str s))
   \<and> (list_ex isSpace (trim s) \<longrightarrow> \<not> isValidName (Str s))"
proof -
  have 1: "s \<noteq> [] \<and> length s \<le> 20 \<and> list_all isAlnum s \<longrightarrow> isValidName (Str s)"
    by (auto simp: isValidName_Str trim_alnum)
  have 2: "list_ex (\<lambda>c. \<not> isAlnum c \<and> \<not> isSpace c) s \<longrightarrow> \<not> isValidName (Str s)"
  proof
    assume "list_ex (\<lambda>c. \<not> isAlnum c \<and> \<not> isSpace c) s"
    then obtain c where c: "c \<in> set s" "\<not> isAlnum c" "\<not> isSpace c"
      by (auto simp: list_ex_iff)
    then have "c \<in> set (trim s)" by (simp add: set_trim_keeps)
    then have "\<not> list_all isAlnum (trim s)" using c(2) by (auto simp: list_all_iff)
    then show "\<not> isValidName (Str s)" by (simp add: isValidName_Str)
  qed
  have 3: "s = [] \<longrightarrow> \<not> isValidName (Str s)"
    by (simp add: isValidName_def)
  have 4: "length (trim s) > 20 \<longrightarrow> \<not> isValidName (Str s)"
    by (simp add: isValidName_Str)
  have 5: "list_ex isSpace (trim s) \<longrightarrow> \<not> isValidName (Str s)"
    by (auto simp: isValidName_Str list_ex_iff list_all_iff dest: alnum_not_space)
  show ?thesis using isValidName_Str 1 2 3 4 5 by blast
qed

theorem isValidName_trimmed_witness:
  "isValidName (Str ''Ann1'') \<and> \<not> isValidName (Str ''Ann.Lee'')
   \<and> \<not> isValidName (Str ''Mary Ann'') \<and> \<not> isValidName (Str [])"
proof -
  have a: "''Ann1'' \<noteq> [] \<and> length ''Ann1'' \<le> 20 \<and> list_all isAlnum ''Ann1''"
    by (simp add: isAlnum_def isAlpha_def isDigit_def)
  have b: "list_ex (\<lambda>c. \<not> isAlnum c \<and> \<not> isSpace c) ''Ann.Lee''"
    by (simp add: isAlnum_def isAlpha_def isDigit_def isSpace_def)
  have c: "list_ex isSpace (trim ''Mary Ann'')"
    by (simp add: trim_def isSpace_def)
  show ?thesis
    using isValidName_trimmed[of "''Ann1''"] isValidName_trimmed[of "''Ann.Lee''"]
      isValidName_trimmed[of "''Mary Ann''"] isValidName_trimmed[of "[]"] a b c
    by blast
qed

text \<open>
  Claim C7 as stated fails: a name padded with blanks contains white space and is longer
  than 20 characters, and the validator accepts it.
\<close>

theorem isValidName_padded_counterexample:
  "list_ex isSpace ''Bob                    '' \<and> length ''Bob                    '' > 20
   \<and> isValidName (Str ''Bob                    '')"
  by (simp add: isValidName_def trim_def isSpace_def isAlnum_def isAlpha_def isDigit_def)

section \<open>Properties of the database module\<close>

lemma list_ex_mapI: "x \<in> set t \<Longrightarrow> P (g x) \<Longrightarrow> list_ex P (map g t)"
  by (auto simp: list_ex_iff)

lemma list_all_mapI: "(\<And>r. Q (g r)) \<Longrightarrow> list_all Q (map g t)"
  by (simp add: list_all_iff)

lemma applyStatement_UpsertRecord:
  "list_ex (\<lambda>r. col_email r = e) (applyStatement (UpsertRecord f l e p c a) t)
   \<and> list_all (\<lambda>r. col_email r = e \<longrightarrow>
         col_phone_number r = p \<and> col_eircode r = c \<and> col_age r = a)
       (applyStatement (UpsertRecord f l e p c a) t)"
proof (cases "e \<in> set (map col_email t)")
  case True
  then obtain x where x: "x \<in> set t" "col_email x = e" by auto
  define u :: "db_row \<Rightarrow> db_row" where "u = (\<lambda>r. if col_email r = e
                 then r\<lparr>col_first_name := f, col_last_name := l, col_phone_number := p,
                        col_eircode := c, col_age := a\<rparr>
                 else r)"
  have t': "applyStatement (UpsertRecord f l e p c a) t = map u t"
    using True by (simp add: u_def)
  have "col_email (u x) = e" using x(2) by (simp add: u_def)
  with x(1) have 1: "list_ex (\<lambda>r. col_email r = e) (map u t)" by (rule list_ex_mapI)
  have 2: "list_all (\<lambda>r. col_email r = e \<longrightarrow>
         col_phone_number r = p \<and> col_eircode r = c \<and> col_age r = a) (map u t)"
    by (rule list_all_mapI) (simp add: u_def)
  show ?thesis unfolding t' using 1 2 by (rule conjI)
next
  case False
  then have t': "applyStatement (UpsertRecord f l e p c a) t
      = t @ [\<lparr>col_first_name = f, col_last_name = l, col_email = e,
                  col_phone_number = p, col_eircode = c, col_age = a\<rparr>]" by simp
  from False have "\<forall>r\<in>set t. col_email r \<noteq> e" by auto
  then show ?thesis unfolding t' by (simp add: list_all_iff)
qed


lemma applyStatement_emails:
  "col_email ` set (applyStatement s t) = insert (stmtEmail s) (col_email ` set t)"
proof (cases s)
  case (UpsertRecord f l e p c a)
  show ?thesis
  proof (cases "e \<in> set (map col_email t)")
    case True
    have "map col_email (applyStatement s t) = map col_email t"
      unfolding UpsertRecord using True by (simp add: comp_def cong: map_cong)
    then have "col_email ` set (applyStatement s t) = col_email ` set t"
      by (metis set_map)
    with True show ?thesis by (auto simp: UpsertRecord)
  next
    case False
    then show ?thesis by (simp add: UpsertRecord)
  qed
next
  case (UpsertCsv f l e a)
  show ?thesis
  proof (cases "e \<in> set (map col_email t)")
    case True
    have "map col_email (applyStatement s t) = map col_email t"
      unfolding UpsertCsv using True by (simp add: comp_def cong: map_cong)
    then have "col_email ` set (applyStatement s t) = col_email ` set t"
      by (metis set_map)
    with True show ?thesis by (auto simp: UpsertCsv)
  next
    case False
    then show ?thesis by (simp add: UpsertCsv)
  qed
qed

lemma applyStatement_row:
  assumes "row \<in> set (applyStatement s t)"
  shows "(col_email row = stmtEmail s \<and> col_age row = stmtAge s)
         \<or> (row \<in> set t \<and> col_email row \<noteq> stmtEmail s)"
proof (cases s)
  case (UpsertRecord f l e p c a)
  show ?thesis
  proof (cases "e \<in> set (map col_email t)")
    case True
    with assms obtain x where "x \<in> set t"
      "row = (if col_email x = e
              then x\<lparr>col_first_name := f, col_last_name := l, col_phone_number := p,
                     col_eircode := c, col_age := a\<rparr> else x)"
      unfolding UpsertRecord by auto
    then show ?thesis unfolding UpsertRecord by (cases "col_email x = e") auto
  next
    case False
    with assms show ?thesis unfolding UpsertRecord by auto
  qed
next
  case (UpsertCsv f l e a)
  show ?thesis
  proof (cases "e \<in> set (map col_email t)")
    case True
    with assms obtain x where "x \<in> set t"
      "row = (if col_email x = e
              then x\<lparr>col_first_name := f, col_last_name := l, col_age := a\<rparr> else x)"
      unfolding UpsertCsv by auto
    then show ?thesis unfolding UpsertCsv by (cases "col_email x = e") auto
  next
    case False
    with assms show ?thesis unfolding UpsertCsv by auto
  qed
qed

lemma applyAll_emails:
  "col_email ` set (foldl (\<lambda>t s. applyStatement s t) t0 ss)
     = col_email ` set t0 \<union> stmtEmail ` set ss"
proof (induction ss rule: rev_induct)
  case Nil
  then show ?case by simp
next
  case (snoc s ss)
  have "col_email ` set (foldl (\<lambda>t s. applyStatement s t) t0 (ss @ [s]))
      = insert (stmtEmail s) (col_email ` set (foldl (\<lambda>t s. applyStatement s t) t0 ss))"
    by (simp add: applyStatement_emails)
  also have "\<dots> = insert (stmtEmail s) (col_email ` set t0 \<union> stmtEmail ` set ss)"
    by (simp only: snoc.IH)
  finally show ?case by auto
qed

lemma applyAll_ages:
  "row \<in> set (foldl (\<lambda>t s. applyStatement s t) t0 ss) \<Longrightarrow> col_email row \<in> stmtEmail ` set ss
   \<Longrightarrow> \<exists>s\<in>set ss. stmtEmail s = col_email row \<and> col_age row = stmtAge s"
proof (induction ss arbitrary: row rule: rev_induct)
  case Nil
  then show ?case by simp
next
  case (snoc s ss)
  from snoc.prems(1) have "row \<in> set (applyStatement s (foldl (\<lambda>t s. applyStatement s t) t0 ss))"
    by simp
  from applyStatement_row[OF this] show ?case
  proof
    assume "col_email row = stmtEmail s \<and> col_age row = stmtAge s"
    then show ?thesis by auto
  next
    assume a: "row \<in> set (foldl (\<lambda>t s. applyStatement s t) t0 ss) \<and> col_email row \<noteq> stmtEmail s"
    with snoc.prems(2) have "col_email row \<in> stmtEmail ` set ss" by auto
    with snoc.IH a obtain s' where "s' \<in> set ss" "stmtEmail s' = col_email row"
      "col_age row = stmtAge s'" by blast
    then show ?thesis by auto
  qed
qed

subsection \<open>The two bulk inserts\<close>

lemma conn_execute_pending:
  assumes "pending st = Some ps"
  shows "conn_execute fl i stmt st =
           (case refused fl i stmt of
              Some e \<Rightarrow> (Some e, st)
            | None \<Rightarrow> (None, st\<lparr>pending := Some (ps @ [stmt])\<rparr>))"
  by (simp add: conn_execute_def assms split: option.splits)

lemma insertAll_v2_ok:
  "insertAll_v2 fl i rs st = (None, st') \<Longrightarrow> pending st = Some ps
   \<Longrightarrow> st' = st\<lparr>pending := Some (ps @ map bulkParams rs)\<rparr>"
proof (induction rs arbitrary: i st ps)
  case Nil
  then show ?case by simp
next
  case (Cons r rs)
  show ?case
  proof (cases "refused fl i (bulkParams r)")
    case (Some e)
    with Cons.prems show ?thesis by (simp add: conn_execute_pending)
  next
    case None
    with Cons.prems have
      "insertAll_v2 fl (Suc i) rs (st\<lparr>pending := Some (ps @ [bulkParams r])\<rparr>) = (None, st')"
      by (simp add: conn_execute_pending)
    from Cons.IH[OF this, of "ps @ [bulkParams r]"] show ?thesis by simp
  qed
qed

lemma insertAll_v2_failed:
  "insertAll_v2 fl i rs st = (Some e, st') \<Longrightarrow> pending st = Some ps
   \<Longrightarrow> committed st' = committed st"
proof (induction rs arbitrary: i st ps)
  case Nil
  then show ?case by simp
next
  case (Cons r rs)
  show ?case
  proof (cases "refused fl i (bulkParams r)")
    case (Some e')
    with Cons.prems show ?thesis by (simp add: conn_execute_pending)
  next
    case None
    with Cons.prems have
      "insertAll_v2 fl (Suc i) rs (st\<lparr>pending := Some (ps @ [bulkParams r])\<rparr>) = (Some e, st')"
      by (simp add: conn_execute_pending)
    from Cons.IH[OF this, of "ps @ [bulkParams r]"] show ?thesis by simp
  qed
qed

lemma insertBulkRecords_v2_atomic:
  assumes "pending st = None" and "insertBulkRecords_v2 fl rs st = (Inl e, st')"
  shows "st' = st"
proof (cases "conn_fails fl \<or> begin_fails fl")
  case True
  with assms show ?thesis
    by (auto simp: insertBulkRecords_v2_def beginTransaction_def rollback_def split: if_splits)
next
  case False
  define s1 where "s1 = st\<lparr>pending := Some []\<rparr>"
  have p1: "pending s1 = Some []" by (simp add: s1_def)
  obtain r2 s2 where l: "insertAll_v2 fl 0 rs s1 = (r2, s2)" by (cases "insertAll_v2 fl 0 rs s1")
  show ?thesis
  proof (cases r2)
    case (Some e2)
    with l have "committed s2 = committed s1" using insertAll_v2_failed[OF _ p1] by simp
    moreover have "st' = rollback s2"
      using assms(2) False l Some
      by (simp add: insertBulkRecords_v2_def beginTransaction_def s1_def)
    ultimately show ?thesis using assms(1) by (simp add: rollback_def s1_def)
  next
    case None
    with l have s2: "s2 = s1\<lparr>pending := Some (map bulkParams rs)\<rparr>"
      using insertAll_v2_ok[OF _ p1] by simp
    have "commit_fails fl"
      using assms(2) False l None
      by (auto simp: insertBulkRecords_v2_def beginTransaction_def s1_def commit_def
          split: if_splits option.splits)
    then have "st' = rollback s2"
      using assms(2) False l None
      by (simp add: insertBulkRecords_v2_def beginTransaction_def s1_def commit_def)
    then show ?thesis using assms(1) by (simp add: rollback_def s2 s1_def)
  qed
qed

lemma insertBulkRecords_v2_committed:
  assumes "insertBulkRecords_v2 fl rs st = (Inr res, st')"
  shows "committed st' = foldl (\<lambda>t s. applyStatement s t) (committed st) (map bulkParams rs)
         \<and> pending st' = None \<and> res = \<lparr>success = True, count = length rs\<rparr>"
proof -
  define s1 where "s1 = st\<lparr>pending := Some []\<rparr>"
  have p1: "pending s1 = Some []" by (simp add: s1_def)
  have nf: "\<not> conn_fails fl" "\<not> begin_fails fl"
    using assms
    by (auto simp: insertBulkRecords_v2_def beginTransaction_def split: if_splits)
  obtain r2 s2 where l: "insertAll_v2 fl 0 rs s1 = (r2, s2)" by (cases "insertAll_v2 fl 0 rs s1")
  have r2: "r2 = None"
    using assms nf l
    by (cases r2) (auto simp: insertBulkRecords_v2_def beginTransaction_def s1_def)
  with l have s2: "s2 = s1\<lparr>pending := Some (map bulkParams rs)\<rparr>"
    using insertAll_v2_ok[OF _ p1] by simp
  have nc: "\<not> commit_fails fl"
    using assms nf l r2
    by (auto simp: insertBulkRecords_v2_def beginTransaction_def s1_def commit_def
        split: if_splits)
  have "insertBulkRecords_v2 fl rs st
      = (Inr \<lparr>success = True, count = length rs\<rparr>,
         s2\<lparr>committed := foldl (\<lambda>t s. applyStatement s t) (committed s2) (map bulkParams rs),
             pending := None\<rparr>)"
    using nf l r2 nc s2
    by (simp add: insertBulkRecords_v2_def beginTransaction_def s1_def commit_def)
  with assms show ?thesis by (auto simp: s2 s1_def)
qed

lemma insertRecord_committed:
  "insertRecord fl i data st = (None, st') \<Longrightarrow>
     st' = st\<lparr>committed := applyStatement (insertRecordParams data) (committed st)\<rparr>"
  by (cases "refused fl i (insertRecordParams data)")
     (auto simp: insertRecord_def pool_execute_def)

lemma insertAll_v1_ok:
  "insertAll_v1 fl i rs st = (None, st') \<Longrightarrow>
     st' = st\<lparr>committed :=
             foldl (\<lambda>t s. applyStatement s t) (committed st) (map insertRecordParams rs)\<rparr>"
proof (induction rs arbitrary: i st)
  case Nil
  then show ?case by simp
next
  case (Cons r rs)
  obtain e s1 where s: "insertRecord fl i r st = (e, s1)" by (cases "insertRecord fl i r st")
  with Cons.prems have e: "e = None" by (cases e) auto
  from insertRecord_committed[OF s[unfolded e]]
  have s1: "s1 = st\<lparr>committed := applyStatement (insertRecordParams r) (committed st)\<rparr>" .
  from Cons.prems s e have "insertAll_v1 fl (Suc i) rs s1 = (None, st')" by simp
  from Cons.IH[OF this] show ?case by (simp add: s1)
qed

lemma insertBulkRecords_v1_committed:
  assumes "insertBulkRecords_v1 fl rs st = (Inr res, st')"
  shows "committed st' = foldl (\<lambda>t s. applyStatement s t) (committed st) (map insertRecordParams rs)
         \<and> pending st' = None \<and> res = \<lparr>success = True, count = length rs\<rparr>"
proof -
  define s1 where "s1 = st\<lparr>pending := Some []\<rparr>"
  have nf: "\<not> conn_fails fl" "\<not> begin_fails fl"
    using assms
    by (auto simp: insertBulkRecords_v1_def beginTransaction_def split: if_splits)
  obtain r2 s2 where l: "insertAll_v1 fl 0 rs s1 = (r2, s2)" by (cases "insertAll_v1 fl 0 rs s1")
  have r2: "r2 = None"
    using assms nf l
    by (cases r2) (auto simp: insertBulkRecords_v1_def beginTransaction_def s1_def)
  with l have s2: "s2 = s1\<lparr>committed :=
      foldl (\<lambda>t s. applyStatement s t) (committed s1) (map insertRecordParams rs)\<rparr>"
    using insertAll_v1_ok by simp
  have nc: "\<not> commit_fails fl"
    using assms nf l r2
    by (auto simp: insertBulkRecords_v1_def beginTransaction_def s1_def commit_def
        split: if_splits)
  have "insertBulkRecords_v1 fl rs st
      = (Inr \<lparr>success = True, count = length rs\<rparr>, s2\<lparr>pending := None\<rparr>)"
    using nf l r2 nc s2
    by (simp add: insertBulkRecords_v1_def beginTransaction_def s1_def commit_def)
  with assms show ?thesis by (auto simp: s2 s1_def)
qed

lemma stored_rows:
  assumes em: "\<And>r. stmtEmail (mk r) = get r ''email''"
    and ag: "\<And>r. stmtAge (mk r) = (if truthy (get r ''age'') then get r ''age'' else Null)"
    and T: "T = foldl (\<lambda>t s. applyStatement s t) t0 (map mk rs)"
  shows "list_all (\<lambda>r. list_ex (\<lambda>row. col_email row = get r ''email'') T) rs
       \<and> list_all (\<lambda>row. col_email row \<in> set (map (\<lambda>r. get r ''email'') rs) \<longrightarrow>
            list_ex (\<lambda>r. get r ''email'' = col_email row
                        \<and> col_age row = (if truthy (get r ''age'') then get r ''age'' else Null))
              rs) T"
proof -
  have se: "stmtEmail ` set (map mk rs) = (\<lambda>r. get r ''email'') ` set rs"
    by (auto simp: em image_iff)
  have 1: "list_ex (\<lambda>row. col_email row = get r ''email'') T" if "r \<in> set rs" for r
  proof -
    from that have "get r ''email'' \<in> stmtEmail ` set (map mk rs)" unfolding se by blast
    then have "get r ''email'' \<in> col_email ` set T"
      unfolding T applyAll_emails by blast
    then show ?thesis by (auto simp: list_ex_iff)
  qed
  have 2: "list_ex (\<lambda>r. get r ''email'' = col_email row
                        \<and> col_age row = (if truthy (get r ''age'') then get r ''age'' else Null)) rs"
    if "row \<in> set T" "col_email row \<in> set (map (\<lambda>r. get r ''email'') rs)" for row
  proof -
    from that(2) have "col_email row \<in> stmtEmail ` set (map mk rs)" unfolding se by simp
    from applyAll_ages[OF that(1)[unfolded T] this]
    obtain s where "s \<in> set (map mk rs)" "stmtEmail s = col_email row" "col_age row = stmtAge s"
      by blast
    then obtain r where "r \<in> set rs" "get r ''email'' = col_email row"
      "col_age row = (if truthy (get r ''age'') then get r ''age'' else Null)"
      using em ag by auto
    then show ?thesis unfolding list_ex_iff by blast
  qed
  show ?thesis using 1 2 unfolding list_all_iff by blast
qed

lemma stmt_of_record:
  "stmtEmail (bulkParams r) = get r ''email''"
  "stmtAge (bulkParams r) = (if truthy (get r ''age'') then get r ''age'' else Null)"
  "stmtEmail (insertRecordParams r) = get r ''email''"
  "stmtAge (insertRecordParams r) = (if truthy (get r ''age'') then get r ''age'' else Null)"
  by (simp_all add: bulkParams_def insertRecordParams_def jsOr_def)

section \<open>Properties of the record validator\<close>

lemma subseq3:
  "subseq ((if a then [x] else []) @ (if b then [y] else []) @ (if c then [z] else [])) [x, y, z]"
  by (cases a; cases b; cases c) (simp_all add: subseq_Cons')

lemma commonChecks_shape:
  "commonChecks isEmail r = Inr common \<Longrightarrow>
     \<exists>ok. isValidEmail isEmail (get r ''email'') = Inr ok \<and>
       common = (if \<not> isValidName (get r ''first_name'') then [msgFirstName] else [])
              @ (if \<not> isValidName (get r ''last_name'') then [msgLastName] else [])
              @ (if \<not> ok then [msgEmail] else [])"
  unfolding commonChecks_def Let_def
  by (cases "isValidEmail isEmail (get r ''email'')") auto

lemma formChecks_shape:
  "formChecks r errs = Inr out \<Longrightarrow>
     \<exists>sp. out = errs @ sp \<and>
       subseq sp [msgPhoneRequired, msgPhone, msgEircodeRequired, msgEircode]"
proof -
  assume a: "formChecks r errs = Inr out"
  define p where "p = (if \<not> truthy (get r ''phone_number'') then [msgPhoneRequired]
         else if \<not> isValidPhone (get r ''phone_number'') then [msgPhone] else [])"
  have sp: "subseq p [msgPhoneRequired, msgPhone]"
    by (simp add: p_def subseq_Cons')
  have e1: "(if \<not> truthy (get r ''phone_number'') then errs @ [msgPhoneRequired]
         else if \<not> isValidPhone (get r ''phone_number'') then errs @ [msgPhone]
         else errs) = errs @ p" by (simp add: p_def)
  obtain q where q: "out = errs @ p @ q" "subseq q [msgEircodeRequired, msgEircode]"
  proof (cases "truthy (get r ''eircode'')")
    case False
    with a have "out = errs @ p @ [msgEircodeRequired]"
      unfolding formChecks_def Let_def e1 by simp
    then show ?thesis using that[of "[msgEircodeRequired]"] by simp
  next
    case True
    with a obtain ok where ok: "isValidEircode (get r ''eircode'') = Inr ok"
      unfolding formChecks_def Let_def e1 by (cases "isValidEircode (get r ''eircode'')") auto
    with a True have "out = errs @ p @ (if \<not> ok then [msgEircode] else [])"
      unfolding formChecks_def Let_def e1 by (cases ok) auto
    then show ?thesis using that[of "if \<not> ok then [msgEircode] else []"]
      by (simp add: subseq_Cons')
  qed
  have "subseq (p @ q) ([msgPhoneRequired, msgPhone] @ [msgEircodeRequired, msgEircode])"
    using sp q(2) by (rule list_emb_append_mono)
  then show ?thesis using q(1) by auto
qed

lemma csvChecks_shape:
  "\<exists>sp. csvChecks r errs = errs @ sp \<and> subseq sp [msgAge]"
proof (cases "truthy (get r ''age'') \<and> \<not> isValidAge (get r ''age'')")
  case True
  then have "csvChecks r errs = errs @ [msgAge]" by (simp add: csvChecks_def)
  then show ?thesis by auto
next
  case False
  then have "csvChecks r errs = errs @ []" by (auto simp: csvChecks_def)
  then show ?thesis by blast
qed

lemma validateRecord_isValid:
  assumes "validateRecord isEmail r src = Inr v"
  shows "isValid v = (errors v = [])"
proof -
  obtain common where c: "commonChecks isEmail r = Inr common"
    using assms unfolding validateRecord_def by (cases "commonChecks isEmail r") auto
  define chk where "chk = (if src = ''form'' then formChecks r common
                 else if src = ''csv'' then Inr (csvChecks r common)
                 else Inr common)"
  have vr: "validateRecord isEmail r src =
      (case chk of Inl e \<Rightarrow> Inl e
       | Inr errs \<Rightarrow> Inr \<lparr>isValid = (length errs = 0), errors = errs\<rparr>)"
    by (simp add: validateRecord_def c chk_def)
  show ?thesis using assms unfolding vr by (cases chk) auto
qed

text \<open>
  Claim C8. The record validator is deterministic and its violation list has a fixed
  order: whenever it returns, the list is the violations of the common checks, a
  subsequence of (first name, last name, email), followed by the violations of the
  source's own checks, a subsequence of that source's messages; and any two runs on the
  same record and source return the same list.
\<close>

theorem validateRecord_fixed_order:
  assumes "validateRecord isEmail r src = Inr res"
  shows "\<exists>common specific.
           errors res = common @ specific
         \<and> commonChecks isEmail r = Inr common
         \<and> subseq common [msgFirstName, msgLastName, msgEmail]
         \<and> subseq specific
              (if src = ''form'' then [msgPhoneRequired, msgPhone, msgEircodeRequired, msgEircode]
               else if src = ''csv'' then [msgAge] else [])
         \<and> isValid res = (errors res = [])
         \<and> (\<forall>res'. validateRecord isEmail r src = Inr res' \<longrightarrow> errors res' = errors res)"
proof -
  obtain common where c: "commonChecks isEmail r = Inr common"
    using assms unfolding validateRecord_def by (cases "commonChecks isEmail r") auto
  from commonChecks_shape[OF c] have sc: "subseq common [msgFirstName, msgLastName, msgEmail]"
    using subseq3 by auto
  define chk where "chk = (if src = ''form'' then formChecks r common
                 else if src = ''csv'' then Inr (csvChecks r common)
                 else Inr common)"
  have vr: "validateRecord isEmail r src =
      (case chk of Inl e \<Rightarrow> Inl e
       | Inr errs \<Rightarrow> Inr \<lparr>isValid = (length errs = 0), errors = errs\<rparr>)"
    by (simp add: validateRecord_def c chk_def)
  obtain errs where e: "chk = Inr errs"
    using assms unfolding vr by (cases chk) auto
  have res: "res = \<lparr>isValid = (length errs = 0), errors = errs\<rparr>"
    using assms e unfolding vr by simp
  have v: "isValid res = (errors res = [])" by (simp add: res)
  have d: "\<forall>res'. validateRecord isEmail r src = Inr res' \<longrightarrow> errors res' = errors res"
    using assms by simp
  have "\<exists>sp. errs = common @ sp \<and> subseq sp
              (if src = ''form'' then [msgPhoneRequired, msgPhone, msgEircodeRequired, msgEircode]
               else if src = ''csv'' then [msgAge] else [])"
  proof (cases "src = ''form''")
    case True
    with e have "formChecks r common = Inr errs" by (simp add: chk_def)
    from formChecks_shape[OF this] show ?thesis using True by simp
  next
    case False
    show ?thesis
    proof (cases "src = ''csv''")
      case True
      with e have "errs = csvChecks r common" by (simp add: chk_def)
      with csvChecks_shape[of r common] show ?thesis using True by simp
    next
      case False
      with \<open>src \<noteq> ''form''\<close> e have "errs = common @ []" by (simp add: chk_def)
      then show ?thesis using False \<open>src \<noteq> ''form''\<close> by auto
    qed
  qed
  then obtain sp where sp: "errs = common @ sp" "subseq sp
              (if src = ''form'' then [msgPhoneRequired, msgPhone, msgEircodeRequired, msgEircode]
               else if src = ''csv'' then [msgAge] else [])" by blast
  have "errors res = common @ sp" by (simp add: res sp(1))
  with c sc sp(2) v d show ?thesis by blast
qed

theorem validateRecord_fixed_order_witness:
  "validateRecord plainEmail
     [(''first_name'', Str ''B b''), (''last_name'', Str ''Ray''),
      (''email'', Str ''bob.example.com''), (''age'', Num 200)] ''csv''
     = Inr \<lparr>isValid = False, errors = [msgFirstName, msgEmail, msgAge]\<rparr>
   \<and> (\<exists>common specific. [msgFirstName, msgEmail, msgAge] = common @ specific
        \<and> subseq common [msgFirstName, msgLastName, msgEmail] \<and> subseq specific [msgAge])"
proof -
  have h: "validateRecord plainEmail
     [(''first_name'', Str ''B b''), (''last_name'', Str ''Ray''),
      (''email'', Str ''bob.example.com''), (''age'', Num 200)] ''csv''
     = Inr \<lparr>isValid = False, errors = [msgFirstName, msgEmail, msgAge]\<rparr>"
    by code_simp
  from validateRecord_fixed_order[OF h] show ?thesis using h by auto
qed

lemma msgAge_distinct:
  "msgAge \<noteq> msgFirstName" "msgAge \<noteq> msgLastName" "msgAge \<noteq> msgEmail"
  by (simp_all add: msgAge_def msgFirstName_def msgLastName_def msgEmail_def)

lemma msgAge_not_common: "commonChecks isEmail r = Inr common \<Longrightarrow> msgAge \<notin> set common"
  using commonChecks_shape[of isEmail r common] msgAge_distinct by (auto split: if_splits)

lemma validateRecord_csv_errors:
  assumes "validateRecord isEmail r ''csv'' = Inr res"
  shows "\<exists>common. commonChecks isEmail r = Inr common \<and> errors res = csvChecks r common
           \<and> isValid res = (errors res = [])"
proof -
  obtain common where c: "commonChecks isEmail r = Inr common"
    using assms unfolding validateRecord_def by (cases "commonChecks isEmail r") auto
  have "res = \<lparr>isValid = (length (csvChecks r common) = 0), errors = csvChecks r common\<rparr>"
    using assms by (simp add: validateRecord_def c)
  then show ?thesis using c by simp
qed

lemma isValidAge_parse:
  "isValidAge v \<longleftrightarrow> (\<exists>n. parseInt v = Num n \<and> 0 \<le> n \<and> n \<le> 120)"
  by (cases "parseInt v") (auto simp: isValidAge_def Let_def)

lemma isValidAge_samples:
  "isValidAge (Num 0)" "isValidAge (Num 120)" "isValidAge (Str ''0'')" "isValidAge (Str ''120'')"
  "\<not> isValidAge (Num (- 1))" "\<not> isValidAge (Num 121)" "\<not> isValidAge (Str ''-1'')"
  "\<not> isValidAge (Str ''121'')" "\<not> isValidAge (Str ''abc'')"
  by code_simp+

text \<open>
  The age rule of a batch record behind its guard: the age violation is in the list
  exactly when the age is truthy and \<^verbatim>\<open>parseInt\<close> of it is \<open>NaN\<close> or lies outside
  0..120, and a record with the violation is invalid.
\<close>

lemma validateRecord_csv_age_guard:
  assumes "validateRecord isEmail r ''csv'' = Inr res"
  shows "(msgAge \<in> set (errors res) \<longleftrightarrow> truthy (get r ''age'') \<and> \<not> isValidAge (get r ''age''))
       \<and> (isValidAge (get r ''age'') \<longleftrightarrow>
            (\<exists>n. parseInt (get r ''age'') = Num n \<and> 0 \<le> n \<and> n \<le> 120))
       \<and> (msgAge \<in> set (errors res) \<longrightarrow> \<not> isValid res)"
proof -
  from validateRecord_csv_errors[OF assms] obtain common where
    c: "commonChecks isEmail r = Inr common" and e: "errors res = csvChecks r common"
    and v: "isValid res = (errors res = [])" by blast
  have nc: "msgAge \<notin> set common" using c by (rule msgAge_not_common)
  have 1: "msgAge \<in> set (errors res) \<longleftrightarrow> truthy (get r ''age'') \<and> \<not> isValidAge (get r ''age'')"
    using nc by (simp add: e csvChecks_def)
  have 3: "msgAge \<in> set (errors res) \<longrightarrow> \<not> isValid res" using v by auto
  show ?thesis using 1 isValidAge_parse[of "get r ''age''"] 3 by blast
qed

section \<open>What reaches the table\<close>

lemma dataZero_insertRecord:
  "insertRecord noFaults 0 dataZero emptyStore = (None, \<lparr>committed = [rowZero], pending = None\<rparr>)"
  by (simp add: insertRecord_def pool_execute_def refused_def noFaults_def insertRecordParams_def
      dataZero_def emptyStore_def rowZero_def get_def jsOr_def)

lemma batchZed_v2:
  "insertBulkRecords_v2 noFaults [recAnn, recZed] emptyStore
     = (Inr \<lparr>success = True, count = 2\<rparr>, \<lparr>committed = tableAnnZed, pending = None\<rparr>)"
  by code_simp

lemma batchZed_v1:
  "insertBulkRecords_v1 noFaults [recAnn, recZed] emptyStore
     = (Inr \<lparr>success = True, count = 2\<rparr>, \<lparr>committed = tableAnnZed, pending = None\<rparr>)"
  by code_simp

text \<open>
  Claim C10. \<^verbatim>\<open>insertRecord\<close> stores \<open>NULL\<close> for every falsy optional field: after a
  successful call the table has a row for the record's email, and every such row holds the
  phone number, the eircode and the age of the record where these are truthy and \<open>NULL\<close>
  where they are not; so the age 0 and an empty phone number or eircode are stored as
  \<open>NULL\<close>. The bulk insert, in either copy of the module and for a batch of any length,
  does the same to the age: after a successful call every record of the batch has a row
  with its email, and every row with the email of a batch record holds the age of such a
  record if that age is truthy and \<open>NULL\<close> if it is not.
\<close>

theorem insertRecord_falsy_to_null:
  "(insertRecord fl i data st = (None, st') \<longrightarrow>
      list_ex (\<lambda>r. col_email r = get data ''email'') (committed st')
      \<and> list_all (\<lambda>r. col_email r = get data ''email'' \<longrightarrow>
            col_phone_number r = (if truthy (get data ''phone_number'')
                                  then get data ''phone_number'' else Null)
          \<and> col_eircode r = (if truthy (get data ''eircode'') then get data ''eircode'' else Null)
          \<and> col_age r = (if truthy (get data ''age'') then get data ''age'' else Null))
          (committed st'))
   \<and> (insertBulkRecords_v2 fl2 rs st2 = (Inr res2, st2') \<longrightarrow>
      list_all (\<lambda>r. list_ex (\<lambda>row. col_email row = get r ''email'') (committed st2')) rs
      \<and> list_all (\<lambda>row. col_email row \<in> set (map (\<lambda>r. get r ''email'') rs) \<longrightarrow>
            list_ex (\<lambda>r. get r ''email'' = col_email row
                        \<and> col_age row = (if truthy (get r ''age'') then get r ''age'' else Null))
              rs) (committed st2'))
   \<and> (insertBulkRecords_v1 fl1 rs st1 = (Inr res1, st1') \<longrightarrow>
      list_all (\<lambda>r. list_ex (\<lambda>row. col_email row = get r ''email'') (committed st1')) rs
      \<and> list_all (\<lambda>row. col_email row \<in> set (map (\<lambda>r. get r ''email'') rs) \<longrightarrow>
            list_ex (\<lambda>r. get r ''email'' = col_email row
                        \<and> col_age row = (if truthy (get r ''age'') then get r ''age'' else Null))
              rs) (committed st1'))"
proof -
  let ?p = "if truthy (get data ''phone_number'') then get data ''phone_number'' else Null"
  let ?c = "if truthy (get data ''eircode'') then get data ''eircode'' else Null"
  let ?a = "if truthy (get data ''age'') then get data ''age'' else Null"
  have ip: "insertRecordParams data
      = UpsertRecord (get data ''first_name'') (get data ''last_name'') (get data ''email'') ?p ?c ?a"
    by (simp add: insertRecordParams_def jsOr_def)
  have 1: "list_ex (\<lambda>r. col_email r = get data ''email'') (committed st')
      \<and> list_all (\<lambda>r. col_email r = get data ''email'' \<longrightarrow>
            col_phone_number r = ?p \<and> col_eircode r = ?c \<and> col_age r = ?a) (committed st')"
    if "insertRecord fl i data st = (None, st')"
  proof -
    from insertRecord_committed[OF that]
    have "committed st' = applyStatement (insertRecordParams data) (committed st)" by simp
    then show ?thesis
      using applyStatement_UpsertRecord[of "get data ''email''" "get data ''first_name''"
        "get data ''last_name''" ?p ?c ?a "committed st"]
      unfolding ip by simp
  qed
  have 2: "list_all (\<lambda>r. list_ex (\<lambda>row. col_email row = get r ''email'') (committed st2')) rs
      \<and> list_all (\<lambda>row. col_email row \<in> set (map (\<lambda>r. get r ''email'') rs) \<longrightarrow>
            list_ex (\<lambda>r. get r ''email'' = col_email row
                        \<and> col_age row = (if truthy (get r ''age'') then get r ''age'' else Null))
              rs) (committed st2')"
    if "insertBulkRecords_v2 fl2 rs st2 = (Inr res2, st2')"
  proof -
    from insertBulkRecords_v2_committed[OF that]
    have "committed st2' = foldl (\<lambda>t s. applyStatement s t) (committed st2) (map bulkParams rs)"
      by simp
    then show ?thesis by (rule stored_rows[OF stmt_of_record(1) stmt_of_record(2)])
  qed
  have 3: "list_all (\<lambda>r. list_ex (\<lambda>row. col_email row = get r ''email'') (committed st1')) rs
      \<and> list_all (\<lambda>row. col_email row \<in> set (map (\<lambda>r. get r ''email'') rs) \<longrightarrow>
            list_ex (\<lambda>r. get r ''email'' = col_email row
                        \<and> col_age row = (if truthy (get r ''age'') then get r ''age'' else Null))
              rs) (committed st1')"
    if "insertBulkRecords_v1 fl1 rs st1 = (Inr res1, st1')"
  proof -
    from insertBulkRecords_v1_committed[OF that]
    have "committed st1'
        = foldl (\<lambda>t s. applyStatement s t) (committed st1) (map insertRecordParams rs)"
      by simp
    then show ?thesis by (rule stored_rows[OF stmt_of_record(3) stmt_of_record(4)])
  qed
  show ?thesis using 1 2 3 by blast
qed

theorem insertRecord_falsy_to_null_witness:
  "insertRecord noFaults 0 dataZero emptyStore = (None, \<lparr>committed = [rowZero], pending = None\<rparr>)
   \<and> get dataZero ''age'' = Num 0 \<and> get dataZero ''phone_number'' = Str []
   \<and> get dataZero ''eircode'' = Str []
   \<and> list_all (\<lambda>r. col_phone_number r = Null \<and> col_eircode r = Null \<and> col_age r = Null)
        [rowZero]
   \<and> insertBulkRecords_v2 noFaults [recAnn, recZed] emptyStore
       = (Inr \<lparr>success = True, count = 2\<rparr>, \<lparr>committed = tableAnnZed, pending = None\<rparr>)
   \<and> insertBulkRecords_v1 noFaults [recAnn, recZed] emptyStore
       = (Inr \<lparr>success = True, count = 2\<rparr>, \<lparr>committed = tableAnnZed, pending = None\<rparr>)
   \<and> get recZed ''age'' = Num 0
   \<and> list_all (\<lambda>r. list_ex (\<lambda>row. col_email row = get r ''email'') tableAnnZed) [recAnn, recZed]
   \<and> list_ex (\<lambda>row. col_email row = get recZed ''email'' \<and> col_age row = Null) tableAnnZed"
proof -
  have g: "get dataZero ''age'' = Num 0" "get dataZero ''phone_number'' = Str []"
    "get dataZero ''eircode'' = Str []" "get dataZero ''email'' = Str ''ann@example.com''"
    "get recZed ''age'' = Num 0"
    by (simp_all add: dataZero_def recZed_def get_def)
  have e: "col_email rowZero = Str ''ann@example.com''" by (simp add: rowZero_def)
  have z: "list_ex (\<lambda>row. col_email row = get recZed ''email'' \<and> col_age row = Null) tableAnnZed"
    by (simp add: tableAnnZed_def recZed_def get_def)
  from insertRecord_falsy_to_null[of noFaults 0 dataZero emptyStore
      "\<lparr>committed = [rowZero], pending = None\<rparr>" noFaults "[recAnn, recZed]" emptyStore
      "\<lparr>success = True, count = 2\<rparr>" "\<lparr>committed = tableAnnZed, pending = None\<rparr>"
      noFaults emptyStore "\<lparr>success = True, count = 2\<rparr>"
      "\<lparr>committed = tableAnnZed, pending = None\<rparr>"]
  show ?thesis using dataZero_insertRecord batchZed_v2 batchZed_v1 g e z by simp
qed

section \<open>Properties of the upload handler\<close>

lemma get_csvRecord:
  "get (csvRecord row) ''first_name'' = get row ''first_name''"
  "get (csvRecord row) ''last_name'' = get row ''last_name''"
  "get (csvRecord row) ''email'' = get row ''email''"
  "get (csvRecord row) ''age'' = parseInt (get row ''age'')"
  by (simp_all add: csvRecord_def get_def)

lemma validateRecord_csv_returns:
  assumes "get r ''email'' = Str e"
  shows "\<exists>v. validateRecord isEmail r ''csv'' = Inr v
          \<and> (\<not> isEmail e \<longrightarrow> errors v \<noteq> [] \<and> \<not> isValid v)
          \<and> (truthy (get r ''age'') \<and> \<not> isValidAge (get r ''age'')
               \<longrightarrow> errors v \<noteq> [] \<and> \<not> isValid v)"
proof -
  have ve: "isValidEmail isEmail (get r ''email'') = Inr (isEmail e)"
    by (simp add: isValidEmail_def assms)
  obtain common where c: "commonChecks isEmail r = Inr common"
    and ce: "\<not> isEmail e \<longrightarrow> common \<noteq> []"
    unfolding commonChecks_def Let_def ve by auto
  have v: "validateRecord isEmail r ''csv''
      = Inr \<lparr>isValid = (length (csvChecks r common) = 0), errors = csvChecks r common\<rparr>"
    by (simp add: validateRecord_def c)
  have "\<not> isEmail e \<longrightarrow> csvChecks r common \<noteq> []"
    using ce by (simp add: csvChecks_def)
  moreover have "truthy (get r ''age'') \<and> \<not> isValidAge (get r ''age'')
      \<longrightarrow> csvChecks r common \<noteq> []"
    by (simp add: csvChecks_def)
  ultimately show ?thesis unfolding v by simp
qed

lemma handleCSVUpload_error_keeps_files:
  "handleCSVUpload isEmail bulk fl req w = (Json500 m, w') \<Longrightarrow> files w' = files w"
  unfolding handleCSVUpload_def
  by (auto split: option.splits prod.splits if_splits sum.splits)

lemma validateFormInput_validates_sanitized:
  assumes "validateFormInput isEmail body0 = Next body"
  shows "body = sanitizeRecord body0
         \<and> validateRecord isEmail (formData (sanitizeRecord body0)) ''form''
             = Inr \<lparr>isValid = True, errors = []\<rparr>"
proof -
  obtain v where v: "validateRecord isEmail (formData (sanitizeRecord body0)) ''form'' = Inr v"
    "isValid v" "body = sanitizeRecord body0"
    using assms unfolding validateFormInput_def Let_def
    by (auto split: option.splits sum.splits if_splits)
  from validateRecord_isValid[OF v(1)] v(2) have "errors v = []" by simp
  with v(2) have "v = \<lparr>isValid = True, errors = []\<rparr>" by simp
  with v show ?thesis by simp
qed

text \<open>
  Claim C6. A three-row batch whose first row is fully valid, whose second row has an
  invalid email and whose third row has the age 200, on a store that accepts the bulk
  insert: the summary counts 3 rows, 1 valid and 2 invalid record, the error list is the
  entries of rows 2 and 3 in that order, each with a non-empty violation list, and the one
  bulk insert made has exactly the sanitized record of row 1; the file is removed.
\<close>

theorem handleCSVUpload_three_rows:
  assumes row1: "validateRecord isEmail (csvRecord r1) ''csv'' = Inr \<lparr>isValid = True, errors = []\<rparr>"
    and row2: "get r2 ''email'' = Str e2" "\<not> isEmail e2"
    and row3: "get r3 ''email'' = Str e3" "get r3 ''age'' = Str ''200''"
    and upl: "rows f = [r1, r2, r3]" "\<not> read_error f" "path f \<in> set (files w)"
    and store: "bulk fl [sanitizeRecord (csvRecord r1)] (db w) = (Inr br, st')"
  shows "\<exists>v2 v3.
      handleCSVUpload isEmail bulk fl (Some f) w
        = (JsonSummary 3 1 2 [RowRejected 2 (csvRecord r2) v2, RowRejected 3 (csvRecord r3) v3],
           w\<lparr>db := st', bulk_calls := bulk_calls w @ [[sanitizeRecord (csvRecord r1)]],
             files := removeAll (path f) (files w)\<rparr>)
      \<and> v2 \<noteq> [] \<and> v3 \<noteq> []"
proof -
  from validateRecord_csv_returns[of "csvRecord r2" e2 isEmail] row2
  obtain w2 where w2: "validateRecord isEmail (csvRecord r2) ''csv'' = Inr w2"
    "errors w2 \<noteq> []" "\<not> isValid w2"
    by (auto simp: get_csvRecord)
  have a3: "get (csvRecord r3) ''age'' = Num 200"
    unfolding get_csvRecord row3 by code_simp
  have "\<not> isValidAge (Num 200)" by code_simp
  with validateRecord_csv_returns[of "csvRecord r3" e3 isEmail] row3(1) a3
  obtain w3 where w3: "validateRecord isEmail (csvRecord r3) ''csv'' = Inr w3"
    "errors w3 \<noteq> []" "\<not> isValid w3"
    by (auto simp: get_csvRecord)
  have rr: "readRows isEmail [r1, r2, r3]
      = ([sanitizeRecord (csvRecord r1)],
         [RowRejected 2 (csvRecord r2) (errors w2), RowRejected 3 (csvRecord r3) (errors w3)], 3)"
    by (simp add: readRows_def onData_def row1 w2 w3)
  have "handleCSVUpload isEmail bulk fl (Some f) w
        = (JsonSummary 3 1 2
             [RowRejected 2 (csvRecord r2) (errors w2), RowRejected 3 (csvRecord r3) (errors w3)],
           w\<lparr>db := st', bulk_calls := bulk_calls w @ [[sanitizeRecord (csvRecord r1)]],
             files := removeAll (path f) (files w)\<rparr>)"
    by (simp add: handleCSVUpload_def upl rr store)
  with w2(2) w3(2) show ?thesis by blast
qed

theorem handleCSVUpload_three_rows_witness:
  "validateRecord plainEmail (csvRecord rowAnn) ''csv'' = Inr \<lparr>isValid = True, errors = []\<rparr>
   \<and> get rowBob ''email'' = Str ''bob.example.com'' \<and> \<not> plainEmail ''bob.example.com''
   \<and> get rowCat ''email'' = Str ''cat@example.com'' \<and> get rowCat ''age'' = Str ''200''
   \<and> sanitizeRecord (csvRecord rowAnn) = recAnn
   \<and> insertBulkRecords_v2 noFaults [recAnn] (db world0)
       = (Inr \<lparr>success = True, count = 1\<rparr>, \<lparr>committed = tableAnn, pending = None\<rparr>)
   \<and> (\<exists>v2 v3.
        handleCSVUpload plainEmail insertBulkRecords_v2 noFaults (Some uploadThree) world0
          = (JsonSummary 3 1 2
               [RowRejected 2 (csvRecord rowBob) v2, RowRejected 3 (csvRecord rowCat) v3],
             \<lparr>db = \<lparr>committed = tableAnn, pending = None\<rparr>, files = [],
              bulk_calls = [[recAnn]]\<rparr>)
        \<and> v2 \<noteq> [] \<and> v3 \<noteq> [])"
proof -
  have h1: "validateRecord plainEmail (csvRecord rowAnn) ''csv''
      = Inr \<lparr>isValid = True, errors = []\<rparr>" by code_simp
  have h2: "get rowBob ''email'' = Str ''bob.example.com''" by code_simp
  have h3: "\<not> plainEmail ''bob.example.com''" by code_simp
  have h4: "get rowCat ''email'' = Str ''cat@example.com''" by code_simp
  have h5: "get rowCat ''age'' = Str ''200''" by code_simp
  have h6: "rows uploadThree = [rowAnn, rowBob, rowCat]" by (simp add: uploadThree_def)
  have h7: "\<not> read_error uploadThree" by (simp add: uploadThree_def)
  have h8: "path uploadThree \<in> set (files world0)" by (simp add: uploadThree_def world0_def)
  have s: "sanitizeRecord (csvRecord rowAnn) = recAnn" by code_simp
  have b: "insertBulkRecords_v2 noFaults [recAnn] (db world0)
       = (Inr \<lparr>success = True, count = 1\<rparr>, \<lparr>committed = tableAnn, pending = None\<rparr>)"
    by code_simp
  have h9: "insertBulkRecords_v2 noFaults [sanitizeRecord (csvRecord rowAnn)] (db world0)
       = (Inr \<lparr>success = True, count = 1\<rparr>, \<lparr>committed = tableAnn, pending = None\<rparr>)"
    unfolding s by (rule b)
  have w: "world0\<lparr>db := \<lparr>committed = tableAnn, pending = None\<rparr>,
             bulk_calls := bulk_calls world0 @ [[sanitizeRecord (csvRecord rowAnn)]],
             files := removeAll (path uploadThree) (files world0)\<rparr>
      = \<lparr>db = \<lparr>committed = tableAnn, pending = None\<rparr>, files = [], bulk_calls = [[recAnn]]\<rparr>"
    unfolding s by (simp add: world0_def uploadThree_def)
  from handleCSVUpload_three_rows[where bulk = insertBulkRecords_v2 and fl = noFaults,
      OF h1 h2 h3 h4 h5 h6 h7 h8 h9]
  show ?thesis unfolding w using h1 h2 h3 h4 h5 s b by blast
qed

text \<open>
  Claim C4 on a batch row whose age cell is not a number. The \<^verbatim>\<open>'data'\<close> handler puts
  \<^verbatim>\<open>parseInt(row.age)\<close> into the record, which is \<open>NaN\<close> for the cell \<^verbatim>\<open>abc\<close>;
  \<open>NaN\<close> is falsy, so the guard \<^verbatim>\<open>record.age &&\<close> skips the age rule, although
  \<^verbatim>\<open>isValidAge\<close> itself rejects \<open>NaN\<close> and the validator rejects the same text when it
  arrives as a string. The row is accepted and stored with the age \<open>NULL\<close>.
\<close>

theorem handleCSVUpload_accepts_non_numeric_age:
  "parseInt (Str ''abc'') = NaN \<and> \<not> isValidAge NaN
   \<and> validateRecord plainEmail rowEve ''csv'' = Inr \<lparr>isValid = False, errors = [msgAge]\<rparr>
   \<and> csvRecord rowEve = recEve
   \<and> validateRecord plainEmail recEve ''csv'' = Inr \<lparr>isValid = True, errors = []\<rparr>
   \<and> handleCSVUpload plainEmail insertBulkRecords_v2 noFaults (Some uploadEve) world0
       = (JsonSummary 1 1 0 [],
          \<lparr>db = \<lparr>committed = tableEve, pending = None\<rparr>, files = [],
           bulk_calls = [[recEve]]\<rparr>)"
  by code_simp

text \<open>
  Claim C1 at the copy of \<^verbatim>\<open>insertBulkRecords\<close> in lines 136-154. The transaction is
  opened on the connection taken from the pool, but each record goes through
  \<^verbatim>\<open>insertRecord\<close>, that is \<^verbatim>\<open>pool.execute\<close>, outside that transaction. On a batch
  of two records whose second statement the store refuses, the call fails and the first
  record stays in the table; the upload handler answers 500 with that row committed. The
  copy in lines 308-341 executes on the connection itself and leaves the store as it was
  (lemma \<open>insertBulkRecords_v2_atomic\<close>).
\<close>

theorem insertBulkRecords_v1_partial_commit:
  "insertBulkRecords_v1 secondRefused [recAnn, recDan] emptyStore
     = (Inl StoreError, \<lparr>committed = tableAnn, pending = None\<rparr>)
   \<and> handleCSVUpload plainEmail insertBulkRecords_v1 secondRefused (Some uploadAnnDan) world0
     = (Json500 ''Failed to process CSV file'',
        \<lparr>db = \<lparr>committed = tableAnn, pending = None\<rparr>, files = [''uploads/7f3a''],
         bulk_calls = [[recAnn, recDan]]\<rparr>)"
  by code_simp

text \<open>
  Claim C3 on an upload whose bulk insert fails (the pool hands out no connection):
  \<^verbatim>\<open>fs.unlink\<close> is the statement after the bulk insert inside the \<^verbatim>\<open>try\<close> block, so
  the handler answers 500 from the \<^verbatim>\<open>catch\<close> and the uploaded file is still there.
  Lemma \<open>handleCSVUpload_error_keeps_files\<close> says the same of every 500 answer.
\<close>

theorem handleCSVUpload_keeps_file_on_error:
  "handleCSVUpload plainEmail insertBulkRecords_v2 noConnection (Some uploadAnnDan) world0
     = (Json500 ''Failed to process CSV file'',
        \<lparr>db = emptyStore, files = [''uploads/7f3a''], bulk_calls = [[recAnn, recDan]]\<rparr>)
   \<and> path uploadAnnDan \<in> set [''uploads/7f3a'']"
  by code_simp

text \<open>
  Claim C5 at a truthy non-string: \<^verbatim>\<open>isValidEircode(123456)\<close> calls
  \<^verbatim>\<open>eircode.trim()\<close> on a number and throws a TypeError, where \<^verbatim>\<open>isValidName\<close> tests
  the type and \<^verbatim>\<open>isValidPhone\<close> converts with \<^verbatim>\<open>toString()\<close>. A form body with a
  numeric eircode is answered with 500 instead of a list of violations.
\<close>

theorem isValidEircode_number_throws:
  "isValidEircode (Num 123456) = Inl TypeError
   \<and> validateFormInput plainEmail bodyNumber
     = Responded (Json500 ''Internal server error during validation'')"
  by code_simp

text \<open>
  Claim C2 on the batch path. The \<^verbatim>\<open>'data'\<close> handler validates the record as read and
  sanitizes only the records it accepts: a row whose first name is wrapped in a tag is
  rejected on the unsanitized value, although the sanitized record is valid; the form
  middleware, which sanitizes first (lemma \<open>validateFormInput_validates_sanitized\<close>),
  lets the same first name through.
\<close>

theorem handleCSVUpload_validates_unsanitized:
  "readRows plainEmail [rowTag] = ([], [RowRejected 1 (csvRecord rowTag) [msgFirstName]], 1)
   \<and> validateRecord plainEmail (sanitizeRecord (csvRecord rowTag)) ''csv''
     = Inr \<lparr>isValid = True, errors = []\<rparr>
   \<and> validateFormInput plainEmail bodyTag = Next (sanitizeRecord bodyTag)
   \<and> get (sanitizeRecord bodyTag) ''firstName'' = Str ''Ann''"
  by code_simp

end
